(* ===== verification/Prelude.thy ===== *)
theory Prelude
  imports Main "HOL-Library.Word"
begin

text \<open>
  Shared types and machinery of the development: the exceptions the program can raise,
  computations over a mutable state that may raise one of them, counted loops, the access to
  the elements of two parallel vectors, and generic lemmas on lists.

  A C++ function that mutates its receiver and may throw is a function from the state to a pair
  of a result and the new state. The state is returned with an exception too: a mutation done
  before a \<^verbatim>\<open>throw\<close> stays visible to the handler.
\<close>

section \<open>Bytes and exceptions\<close>

type_synonym byte = "8 word"

text \<open>
  \<open>ProtocolException\<close> is the class of protocol.h; \<open>TimedProtocolException\<close> and
  \<open>SanityException\<close> are the two classes of timed_commitment.h; \<open>PaillierException\<close> is the
  class of paillier.h; \<open>StdException\<close> is a bare \<^verbatim>\<open>std::exception\<close>. \<open>InvalidCiphertext\<close> and
  \<open>DivideByZero\<close> are raised by the cryptographic library, \<open>TransportException\<close> by the RPC
  client. \<open>Undefined\<close> marks behaviour the language leaves undefined.
\<close>

datatype exn =
    ProtocolException string
  | TimedProtocolException string
  | SanityException string
  | PaillierException string
  | StdException
  | InvalidCiphertext
  | DivideByZero
  | TransportException
  | Undefined

section \<open>Computations with state and exceptions\<close>

type_synonym ('s, 'a) comp = "'s \<Rightarrow> (exn + 'a) \<times> 's"

named_theorems accessors \<open>the members of the classes that read or write one field\<close>

named_theorems comp_defs \<open>unfolding of the combinators of computations\<close>

definition ret :: "'a \<Rightarrow> ('s, 'a) comp" where
  [comp_defs]: "ret x = (\<lambda>s. (Inr x, s))"

definition throw :: "exn \<Rightarrow> ('s, 'a) comp" where
  [comp_defs]: "throw e = (\<lambda>s. (Inl e, s))"

definition from_sum :: "exn + 'a \<Rightarrow> ('s, 'a) comp" where
  [comp_defs]: "from_sum r = (\<lambda>s. (r, s))"

definition fetch :: "('s \<Rightarrow> 'a) \<Rightarrow> ('s, 'a) comp" where
  [comp_defs]: "fetch f = (\<lambda>s. (Inr (f s), s))"

definition modify :: "('s \<Rightarrow> 's) \<Rightarrow> ('s, unit) comp" where
  [comp_defs]: "modify f = (\<lambda>s. (Inr (), f s))"

definition and_then :: "('s, 'a) comp \<Rightarrow> ('a \<Rightarrow> ('s, 'b) comp) \<Rightarrow> ('s, 'b) comp" where
  [comp_defs]: "and_then m f = (\<lambda>s. case m s of (Inl e, s') \<Rightarrow> (Inl e, s') | (Inr x, s') \<Rightarrow> f x s')"

definition seq :: "('s, unit) comp \<Rightarrow> ('s, 'b) comp \<Rightarrow> ('s, 'b) comp" where
  [comp_defs]: "seq m k = and_then m (\<lambda>_. k)"

definition throw_if :: "bool \<Rightarrow> exn \<Rightarrow> ('s, unit) comp" where
  [comp_defs]: "throw_if b e = (if b then throw e else ret ())"

text \<open>A sum-valued function applied to the result of another.\<close>

definition sum_then :: "exn + 'a \<Rightarrow> ('a \<Rightarrow> exn + 'b) \<Rightarrow> exn + 'b" where
  [comp_defs]: "sum_then r f = (case r of Inl e \<Rightarrow> Inl e | Inr x \<Rightarrow> f x)"

text \<open>\<open>for_each xs body\<close> runs the body for every element of \<open>xs\<close> and stops at the first exception.\<close>

fun for_each :: "'i list \<Rightarrow> ('i \<Rightarrow> ('s, unit) comp) \<Rightarrow> ('s, unit) comp" where
  "for_each [] body s = (Inr (), s)"
| "for_each (i # is) body s =
     (case body i s of (Inl e, s') \<Rightarrow> (Inl e, s') | (Inr _, s') \<Rightarrow> for_each is body s')"

lemma and_then_Inr:
  "and_then m f s = (Inr y, t) \<longleftrightarrow> (\<exists>x s'. m s = (Inr x, s') \<and> f x s' = (Inr y, t))"
  by (auto simp: and_then_def split: prod.splits sum.splits)

lemma and_then_Inl:
  "and_then m f s = (Inl e, t) \<longleftrightarrow>
     m s = (Inl e, t) \<or> (\<exists>x s'. m s = (Inr x, s') \<and> f x s' = (Inl e, t))"
  by (auto simp: and_then_def split: prod.splits sum.splits)

lemma and_then_step: "m s = (Inr x, s') \<Longrightarrow> and_then m f s = f x s'"
  by (simp add: and_then_def)

lemma seq_step: "m s = (Inr x, s') \<Longrightarrow> seq m k s = k s'"
  by (simp add: seq_def and_then_def)

lemma seq_Inr: "seq m k s = (Inr y, t) \<longleftrightarrow> (\<exists>s'. m s = (Inr (), s') \<and> k s' = (Inr y, t))"
  by (simp add: seq_def and_then_Inr)

lemma seq_Inl:
  "seq m k s = (Inl e, t) \<longleftrightarrow> m s = (Inl e, t) \<or> (\<exists>s'. m s = (Inr (), s') \<and> k s' = (Inl e, t))"
  by (auto simp: seq_def and_then_Inl)

lemma basic_step [simp]:
  "ret x s = (Inr x, s)" "throw e s = (Inl e, s)" "from_sum r s = (r, s)"
  "fetch f s = (Inr (f s), s)" "modify g s = (Inr (), g s)"
  "throw_if b e s = (if b then Inl e else Inr (), s)"
  by (simp_all add: comp_defs)

lemma sum_then_simps [simp]:
  "sum_then (Inr x) f = f x" "sum_then (Inl e) f = Inl e"
  by (simp_all add: sum_then_def)

lemma sum_then_Inr: "sum_then r f = Inr y \<longleftrightarrow> (\<exists>x. r = Inr x \<and> f x = Inr y)"
  by (cases r) auto

section \<open>Loops\<close>

lemma for_each_append:
  "for_each (xs @ ys) body s =
     (case for_each xs body s of (Inl e, s') \<Rightarrow> (Inl e, s') | (Inr _, s') \<Rightarrow> for_each ys body s')"
  by (induction xs arbitrary: s) (auto split: prod.splits sum.splits)

lemma for_each_map: "for_each (map g is) body s = for_each is (\<lambda>i. body (g i)) s"
  by (induction "is" arbitrary: s) (auto split: prod.splits sum.splits)

lemma for_each_cong [fundef_cong]:
  "is = js \<Longrightarrow> s = t \<Longrightarrow> (\<And>i u. i \<in> set js \<Longrightarrow> body i u = body' i u) \<Longrightarrow> for_each is body s = for_each js body' t"
proof (induction js arbitrary: "is" s t)
  case Nil
  then show ?case by simp
next
  case (Cons j js)
  then show ?case by (auto split: prod.splits sum.splits)
qed

lemma for_each_nth: "length xs = n \<Longrightarrow> for_each [0..<n] (\<lambda>i. body (xs ! i)) s = for_each xs body s"
  by (metis for_each_map map_nth)

text \<open>
  Invariant rule for a loop that does not raise: every body step from a state with the invariant
  returns, and moves the invariant to the next position.
\<close>

lemma for_each_total:
  assumes "I [] s"
    and "\<And>xs x ys s. is = xs @ x # ys \<Longrightarrow> I xs s \<Longrightarrow> \<exists>s'. body x s = (Inr (), s') \<and> I (xs @ [x]) s'"
  shows "\<exists>s'. for_each is body s = (Inr (), s') \<and> I is s'"
  using assms
proof (induction "is" arbitrary: s rule: rev_induct)
  case Nil
  then show ?case by simp
next
  case (snoc x xs)
  have "\<exists>s'. for_each xs body s = (Inr (), s') \<and> I xs s'"
    by (rule snoc.IH [OF snoc.prems(1)]) (use snoc.prems(2) in fastforce)
  then obtain s' where s': "for_each xs body s = (Inr (), s')" "I xs s'" by blast
  obtain s'' where "body x s' = (Inr (), s'')" "I (xs @ [x]) s''"
    using snoc.prems(2) [of xs x "[]" s'] s'(2) by auto
  then show ?case by (simp add: for_each_append s'(1))
qed

text \<open>The partial counterpart: what holds when the loop has returned.\<close>

lemma for_each_partial:
  assumes "for_each is body s = (Inr (), t)" and "I [] s"
    and "\<And>xs x ys s s'. is = xs @ x # ys \<Longrightarrow> I xs s \<Longrightarrow> body x s = (Inr (), s') \<Longrightarrow> I (xs @ [x]) s'"
  shows "I is t"
  using assms
proof (induction "is" arbitrary: t rule: rev_induct)
  case Nil
  then show ?case by simp
next
  case (snoc x xs)
  from snoc.prems(1) obtain s' where s': "for_each xs body s = (Inr (), s')"
    and t: "body x s' = (Inr (), t)"
    by (auto simp: for_each_append split: prod.splits sum.splits)
  have "I xs s'" by (rule snoc.IH [OF s' snoc.prems(2)]) (use snoc.prems(3) in fastforce)
  then show ?case using snoc.prems(3) [of xs x "[]"] t by simp
qed

text \<open>A relation between states that every body step keeps, raised or not, holds across the loop.\<close>

lemma for_each_preserves:
  assumes "\<And>x s. x \<in> set is \<Longrightarrow> P s \<Longrightarrow> P (snd (body x s))" and "P s"
  shows "P (snd (for_each is body s))"
  using assms
proof (induction "is" arbitrary: s)
  case Nil
  then show ?case by simp
next
  case (Cons i "is")
  have "P (snd (body i s))" using Cons.prems by simp
  then show ?case using Cons.IH Cons.prems(1)
    by (auto split: prod.splits sum.splits)
qed

section \<open>The elements of two parallel vectors\<close>

text \<open>
  \<open>at_index i f\<close> runs a two-party operation on the \<open>i\<close>-th elements of two vectors. An index past
  the end of either is undefined in the code.
\<close>

definition at_index :: "nat \<Rightarrow> ('a \<times> 'b, unit) comp \<Rightarrow> ('a list \<times> 'b list, unit) comp" where
  "at_index i f = (\<lambda>(as, bs).
     if i < length as \<and> i < length bs
     then (case f (as ! i, bs ! i) of (r, a, b) \<Rightarrow> (r, as[i := a], bs[i := b]))
     else (Inl Undefined, as, bs))"

lemma at_index_Inr:
  "at_index i f (as, bs) = (Inr u, as', bs') \<longleftrightarrow>
     i < length as \<and> i < length bs \<and>
     (\<exists>a b. f (as ! i, bs ! i) = (Inr u, a, b) \<and> as' = as[i := a] \<and> bs' = bs[i := b])"
  by (auto simp: at_index_def split: prod.splits)

lemma at_index_lengths:
  "length (fst (snd (at_index i f (as, bs)))) = length as"
  "length (snd (snd (at_index i f (as, bs)))) = length bs"
  by (auto simp: at_index_def split: prod.splits)

text \<open>A loop that runs one operation on every pair of elements below \<open>T\<close>.\<close>

lemma each_index_partial:
  assumes "for_each [0..<T] (\<lambda>i. at_index i (f i)) s = (Inr (), t)"
  shows "length (fst t) = length (fst s) \<and> length (snd t) = length (snd s) \<and>
    (\<forall>i<T. i < length (fst s) \<and> i < length (snd s) \<and>
       f i (fst s ! i, snd s ! i) = (Inr (), fst t ! i, snd t ! i))"
proof -
  define I where "I xs t \<longleftrightarrow> length (fst t) = length (fst s) \<and> length (snd t) = length (snd s) \<and>
    (\<forall>i. i \<notin> set xs \<longrightarrow> fst t ! i = fst s ! i \<and> snd t ! i = snd s ! i) \<and>
    (\<forall>i\<in>set xs. i < length (fst s) \<and> i < length (snd s) \<and>
       f i (fst s ! i, snd s ! i) = (Inr (), fst t ! i, snd t ! i))" for xs t
  have "I [0..<T] t"
  proof (rule for_each_partial [OF assms])
    show "I [] s" by (simp add: I_def)
    fix xs x ys u u' assume e: "[0..<T] = xs @ x # ys" and I: "I xs u"
      and step: "at_index x (f x) u = (Inr (), u')"
    have x: "x \<notin> set xs" using distinct_upt [of 0 T] e by simp
    obtain as bs as' bs' where u: "u = (as, bs)" "u' = (as', bs')" by (cases u; cases u') auto
    from step obtain a b where "x < length as" "x < length bs"
      "f x (as ! x, bs ! x) = (Inr (), a, b)" "as' = as[x := a]" "bs' = bs[x := b]"
      unfolding u by (auto simp: at_index_Inr)
    with I x show "I (xs @ [x]) u'" by (auto simp: I_def u nth_list_update)
  qed
  then show ?thesis by (simp add: I_def)
qed

lemma each_index_total:
  assumes "T \<le> length (fst s)" "T \<le> length (snd s)"
    and "\<And>i. i < T \<Longrightarrow> \<exists>a b. f i (fst s ! i, snd s ! i) = (Inr (), a, b)"
  shows "\<exists>t. for_each [0..<T] (\<lambda>i. at_index i (f i)) s = (Inr (), t)"
proof -
  define I where "I xs t \<longleftrightarrow> length (fst t) = length (fst s) \<and> length (snd t) = length (snd s) \<and>
    (\<forall>i. i \<notin> set xs \<longrightarrow> fst t ! i = fst s ! i \<and> snd t ! i = snd s ! i)" for xs t
  have "\<exists>t. for_each [0..<T] (\<lambda>i. at_index i (f i)) s = (Inr (), t) \<and> I [0..<T] t"
  proof (rule for_each_total)
    show "I [] s" by (simp add: I_def)
    fix xs x ys u assume e: "[0..<T] = xs @ x # ys" and I: "I xs u"
    have "x \<in> set [0..<T]" unfolding e by simp
    then have T: "x < T" by simp
    have x: "x \<notin> set xs" using distinct_upt [of 0 T] e by simp
    obtain as bs where u: "u = (as, bs)" by (cases u)
    obtain a b where "f x (as ! x, bs ! x) = (Inr (), a, b)"
      using assms(3) [OF T] I x by (auto simp: I_def u)
    then have "at_index x (f x) u = (Inr (), as[x := a], bs[x := b])"
      using I T assms(1,2) by (simp add: at_index_def u I_def)
    moreover have "I (xs @ [x]) (as[x := a], bs[x := b])" using I by (auto simp: I_def u)
    ultimately show "\<exists>u'. at_index x (f x) u = (Inr (), u') \<and> I (xs @ [x]) u'" by blast
  qed
  then show ?thesis by blast
qed

lemma seq_at_index: "seq (at_index i f) (at_index i g) = at_index i (seq f g)"
  by (rule ext) (auto simp: seq_def and_then_def at_index_def split: prod.splits sum.splits)

section \<open>The two parties of a protocol\<close>

definition on_first :: "('a, 'x) comp \<Rightarrow> ('a \<times> 'b, 'x) comp" where
  "on_first f = (\<lambda>(a, b). case f a of (r, a') \<Rightarrow> (r, a', b))"

definition on_second :: "('b, 'x) comp \<Rightarrow> ('a \<times> 'b, 'x) comp" where
  "on_second f = (\<lambda>(a, b). case f b of (r, b') \<Rightarrow> (r, a, b'))"

lemma on_first_simp [simp]: "on_first f (a, b) = (fst (f a), snd (f a), b)"
  by (simp add: on_first_def split: prod.splits)

lemma on_second_simp [simp]: "on_second f (a, b) = (fst (f b), a, snd (f b))"
  by (simp add: on_second_def split: prod.splits)

section \<open>Bytes and lists\<close>

lemma byte_unat_less [simp]: "unat (b :: byte) < 256"
proof -
  have "unat b < 2 ^ LENGTH(8)" by (rule unsigned_less)
  then show ?thesis by simp
qed

lemma byte_uint_less [simp]: "uint (b :: byte) < 256"
proof -
  have "uint b < 2 ^ LENGTH(8)" by (rule unsigned_less)
  then show ?thesis by simp
qed

text \<open>Equality of the first \<open>n\<close> elements, compared one by one from the front.\<close>

definition same_prefix :: "nat \<Rightarrow> 'a list \<Rightarrow> 'a list \<Rightarrow> bool" where
  "same_prefix n xs ys \<longleftrightarrow> list_all (\<lambda>i. xs ! i = ys ! i) [0..<n]"

lemma same_prefix_iff: "same_prefix n xs ys \<longleftrightarrow> (\<forall>i<n. xs ! i = ys ! i)"
  by (auto simp: same_prefix_def list_all_iff)

lemma same_prefix_full: "length xs = n \<Longrightarrow> length ys = n \<Longrightarrow> same_prefix n xs ys \<longleftrightarrow> xs = ys"
  by (auto simp: same_prefix_iff list_eq_iff_nth_eq)

lemma map_nth_upt_eq: "length xs = n \<Longrightarrow> (\<And>i. i < n \<Longrightarrow> f i = xs ! i) \<Longrightarrow> map f [0..<n] = xs"
  by (rule nth_equalityI) auto

lemma append_eq_same_suffix_length:
  "length b = length d \<Longrightarrow> a @ b = c @ d \<longleftrightarrow> a = c \<and> b = d"
  by auto

end
