(* ===== verification/Number_Facts.thy ===== *)
theory Number_Facts
  imports Main
begin

text \<open>
  The number theory the cryptographic components rest on, over \<open>int\<close>: primes, Fermat's
  little theorem, exponents reduced modulo \<open>(p - 1) * (q - 1)\<close>, the powers of \<open>1 + n\<close>
  modulo \<open>n * n\<close> that Paillier decryption uses, square roots modulo a prime, and the greatest
  common divisors that split a product of two primes.
\<close>

section \<open>Primes\<close>

definition prime_integer :: "int \<Rightarrow> bool" where
  "prime_integer p \<longleftrightarrow> 1 < p \<and> (\<forall>d. 0 < d \<and> d dvd p \<longrightarrow> d = 1 \<or> d = p)"

lemma prime_integer_code [code]:
  "prime_integer p \<longleftrightarrow> 1 < p \<and> list_all (\<lambda>d. p mod d \<noteq> 0) [2..p - 1]"
proof (cases "1 < p")
  case True
  have "(\<forall>d. 0 < d \<and> d dvd p \<longrightarrow> d = 1 \<or> d = p) \<longleftrightarrow> (\<forall>d\<in>{2..p - 1}. p mod d \<noteq> 0)"
  proof
    assume p: "\<forall>d. 0 < d \<and> d dvd p \<longrightarrow> d = 1 \<or> d = p"
    show "\<forall>d\<in>{2..p - 1}. p mod d \<noteq> 0"
      using p by (force simp: mod_eq_0_iff_dvd)
  next
    assume nd: "\<forall>d\<in>{2..p - 1}. p mod d \<noteq> 0"
    show "\<forall>d. 0 < d \<and> d dvd p \<longrightarrow> d = 1 \<or> d = p"
    proof (intro allI impI, elim conjE)
      fix d assume d: "0 < d" "d dvd p"
      with True have "d \<le> p" by (auto dest: zdvd_imp_le)
      moreover have "d \<notin> {2..p - 1}" using nd d by (auto simp: mod_eq_0_iff_dvd)
      ultimately show "d = 1 \<or> d = p" using d(1) by auto
    qed
  qed
  with True show ?thesis by (simp add: prime_integer_def list_all_iff)
next
  case False
  then show ?thesis by (simp add: prime_integer_def)
qed

lemma prime_integer_gt_1: "prime_integer p \<Longrightarrow> 1 < p"
  by (simp add: prime_integer_def)

lemma prime_integer_coprime:
  assumes "prime_integer p" "\<not> p dvd a"
  shows "coprime p a"
proof -
  have "gcd p a dvd p" "0 < gcd p a" using assms by (auto simp: prime_integer_def)
  then have "gcd p a = 1 \<or> gcd p a = p" using assms(1) by (simp add: prime_integer_def)
  moreover have "gcd p a \<noteq> p" using assms(2) by (metis gcd_dvd2)
  ultimately show ?thesis by (simp add: coprime_iff_gcd_eq_1)
qed

lemma prime_integer_dvd_mult:
  assumes "prime_integer p" "p dvd a * b"
  shows "p dvd a \<or> p dvd b"
  using assms prime_integer_coprime coprime_dvd_mult_right_iff by blast

lemma prime_integer_dvd_power:
  assumes "prime_integer p" "p dvd a ^ k"
  shows "p dvd a"
  using assms
proof (induction k)
  case 0
  then show ?case by (auto simp: prime_integer_def dest: zdvd_imp_le)
next
  case (Suc k)
  then show ?case using prime_integer_dvd_mult by (metis power_Suc)
qed

lemma prime_integer_coprime_distinct:
  assumes "prime_integer p" "prime_integer q" "p \<noteq> q"
  shows "coprime p q"
proof (rule prime_integer_coprime [OF assms(1)])
  show "\<not> p dvd q"
  proof
    assume "p dvd q"
    moreover have "0 < p" "p \<noteq> 1" using assms(1) by (auto simp: prime_integer_def)
    ultimately show False using assms(2,3) unfolding prime_integer_def by blast
  qed
qed

lemma coprime_bezout:
  fixes a b :: int
  assumes "u * a + v * b = 1"
  shows "coprime a b"
proof (rule coprimeI)
  fix c assume "c dvd a" "c dvd b"
  then have "c dvd u * a + v * b" by simp
  with assms show "is_unit c" by simp
qed

section \<open>Fermat's little theorem\<close>

lemma prime_dvd_choose:
  assumes p: "prime_integer (int p)" and k: "0 < k" "k < p"
  shows "p dvd (p choose k)"
proof -
  obtain p' k' where s: "p = Suc p'" "k = Suc k'"
    using k by (metis gr0_implies_Suc less_nat_zero_code not_gr_zero)
  have "k * (p choose k) = p * (p' choose k')"
    using Suc_times_binomial [of k' p'] by (simp add: s)
  then have "int p dvd int k * int (p choose k)"
    by (metis dvd_triv_left of_nat_dvd_iff of_nat_mult)
  moreover have "\<not> int p dvd int k"
    using k by (auto dest: zdvd_imp_le)
  ultimately have "int p dvd int (p choose k)"
    using prime_integer_dvd_mult [OF p] by blast
  then show ?thesis by (simp add: of_nat_dvd_iff)
qed

lemma power_prime_Suc:
  assumes p: "prime_integer (int p)"
  shows "int p dvd (x + 1) ^ p - (x ^ p + 1)"
proof -
  have p0: "0 < p" using p by (auto simp: prime_integer_def)
  let ?f = "\<lambda>k. int (p choose k) * x ^ k"
  have "(x + 1) ^ p = (\<Sum>k\<le>p. ?f k)"
    using binomial_ring [of x 1 p] by simp
  also have "{..p} = insert 0 (insert p {1..<p})" using p0 by auto
  also have "(\<Sum>k\<in>insert 0 (insert p {1..<p}). ?f k) = ?f 0 + (?f p + (\<Sum>k\<in>{1..<p}. ?f k))"
    using p0 by (subst sum.insert; (subst sum.insert)?; simp)
  also have "\<dots> - (x ^ p + 1) = (\<Sum>k\<in>{1..<p}. ?f k)" by simp
  finally have "(x + 1) ^ p - (x ^ p + 1) = (\<Sum>k\<in>{1..<p}. ?f k)" by simp
  moreover have "int p dvd (\<Sum>k\<in>{1..<p}. ?f k)"
    by (rule dvd_sum) (use p prime_dvd_choose in \<open>auto simp: of_nat_dvd_iff\<close>)
  ultimately show ?thesis by simp
qed

lemma fermat_nat:
  assumes p: "prime_integer (int p)"
  shows "int p dvd int x ^ p - int x"
proof (induction x)
  case 0
  have "p \<noteq> 0" using p by (auto simp: prime_integer_def)
  then show ?case by (simp add: zero_power)
next
  case (Suc x)
  have "int p dvd ((int x + 1) ^ p - (int x ^ p + 1)) + (int x ^ p - int x)"
    using power_prime_Suc [OF p] Suc by (rule dvd_add)
  then show ?case by (simp add: algebra_simps)
qed

theorem fermat_power:
  assumes p: "prime_integer p"
  shows "x ^ nat p mod p = x mod p"
proof -
  have p1: "1 < p" using p by (rule prime_integer_gt_1)
  have np: "int (nat p) = p" using p1 by simp
  have nx: "int (nat (x mod p)) = x mod p" using p1 by simp
  have "p dvd (x mod p) ^ nat p - x mod p"
    using fermat_nat [of "nat p" "nat (x mod p)", unfolded np nx, OF p] .
  then have "(x mod p) ^ nat p mod p = (x mod p) mod p"
    by (simp only: mod_eq_dvd_iff)
  then show ?thesis by (simp add: power_mod)
qed

theorem fermat_unit:
  assumes p: "prime_integer p" and x: "\<not> p dvd x"
  shows "x ^ nat (p - 1) mod p = 1"
proof -
  have p1: "1 < p" using p by (rule prime_integer_gt_1)
  have s: "nat p = Suc (nat (p - 1))" using p1 by simp
  have "p dvd x ^ nat p - x" using fermat_power [OF p, of x] by (simp add: mod_eq_dvd_iff)
  then have "p dvd x * (x ^ nat (p - 1) - 1)" by (simp add: s algebra_simps)
  then have "p dvd x ^ nat (p - 1) - 1" using prime_integer_dvd_mult [OF p] x by blast
  then have "x ^ nat (p - 1) mod p = 1 mod p" by (simp add: mod_eq_dvd_iff)
  then show ?thesis using p1 by simp
qed


section \<open>Congruences modulo a product\<close>

lemma mod_eq_mult_coprime:
  fixes p q :: int
  assumes "coprime p q" "a mod p = b mod p" "a mod q = b mod q"
  shows "a mod (p * q) = b mod (p * q)"
  using assms by (simp add: mod_eq_dvd_iff divides_mult)

lemma power_mod_exponent:
  fixes x m :: int
  assumes one: "x ^ e mod m = 1 mod m"
  shows "x ^ (e * k + j) mod m = x ^ j mod m"
proof -
  have "x ^ (e * k) mod m = 1 mod m"
    using one by (metis power_mod power_mult power_one)
  then show ?thesis by (metis mod_mult_left_eq mult_1 power_add)
qed

lemma prime_power_exponent:
  assumes p: "prime_integer p" and a: "0 < a" and b: "a mod m = b mod m" "0 < b"
    and m: "nat (p - 1) dvd m"
  shows "x ^ a mod p = x ^ b mod p"
proof (cases "p dvd x")
  case True
  then have "p dvd x ^ a" "p dvd x ^ b" using a b(2) by (meson dvd_power dvd_trans)+
  then show ?thesis by (simp add: dvd_imp_mod_0)
next
  case False
  let ?e = "nat (p - 1)"
  have one: "x ^ ?e mod p = 1 mod p"
    using fermat_unit [OF p False] prime_integer_gt_1 [OF p] by simp
  have "a mod ?e = b mod ?e" using b(1) m by (metis mod_mod_cancel)
  moreover have "x ^ k mod p = x ^ (k mod ?e) mod p" for k
    using power_mod_exponent [OF one, of "k div ?e" "k mod ?e"] by simp
  ultimately show ?thesis by metis
qed

theorem power_exponent_mod_totient:
  fixes x :: int
  assumes p: "prime_integer p" and q: "prime_integer q" and pq: "p \<noteq> q"
    and k: "0 < k" "0 < k mod nat ((p - 1) * (q - 1))"
  shows "x ^ (k mod nat ((p - 1) * (q - 1))) mod (p * q) = x ^ k mod (p * q)"
proof (rule mod_eq_mult_coprime)
  let ?m = "nat ((p - 1) * (q - 1))"
  have "1 < p" "1 < q" using p q by (simp_all add: prime_integer_gt_1)
  then have m: "?m = nat (p - 1) * nat (q - 1)" by (simp add: nat_mult_distrib)
  show "coprime p q" using p q pq by (rule prime_integer_coprime_distinct)
  show "x ^ (k mod ?m) mod p = x ^ k mod p"
    by (rule prime_power_exponent [OF p k(2) _ k(1), of ?m]) (simp_all add: m)
  show "x ^ (k mod ?m) mod q = x ^ k mod q"
    by (rule prime_power_exponent [OF q k(2) _ k(1), of ?m]) (simp_all add: m)
qed

lemma unit_power_totient:
  fixes r :: int
  assumes p: "prime_integer p" and q: "prime_integer q" and pq: "p \<noteq> q"
    and r: "coprime r (p * q)"
  shows "r ^ nat ((p - 1) * (q - 1)) mod (p * q) = 1 mod (p * q)"
proof (rule mod_eq_mult_coprime)
  have g: "1 < p" "1 < q" using p q by (simp_all add: prime_integer_gt_1)
  then have m: "nat ((p - 1) * (q - 1)) = nat (p - 1) * nat (q - 1)" by (simp add: nat_mult_distrib)
  have cop: "coprime r p" "coprime r q" using r by simp_all
  have nd: "\<not> p dvd r" "\<not> q dvd r"
    using cop g coprime_common_divisor_int by fastforce+
  show "coprime p q" using p q pq by (rule prime_integer_coprime_distinct)
  have "r ^ nat (p - 1) mod p = 1 mod p" "r ^ nat (q - 1) mod q = 1 mod q"
    using fermat_unit [OF p nd(1)] fermat_unit [OF q nd(2)] g by simp_all
  from power_mod_exponent [OF this(1), of "nat (q - 1)" 0]
    power_mod_exponent [OF this(2), of "nat (p - 1)" 0]
  show "r ^ nat ((p - 1) * (q - 1)) mod p = 1 mod p"
    "r ^ nat ((p - 1) * (q - 1)) mod q = 1 mod q"
    by (simp_all add: m mult.commute)
qed

section \<open>Powers of \<open>1 + n\<close> modulo \<open>n * n\<close>\<close>

lemma one_plus_power:
  fixes n k :: int
  shows "(1 + k * n) ^ j mod (n * n) = (1 + int j * k * n) mod (n * n)"
proof (induction j)
  case 0
  then show ?case by simp
next
  case (Suc j)
  have "(1 + k * n) ^ Suc j mod (n * n) = (1 + k * n) * ((1 + k * n) ^ j mod (n * n)) mod (n * n)"
    by (simp add: mod_mult_right_eq)
  also have "\<dots> = (1 + k * n) * (1 + int j * k * n) mod (n * n)"
    by (simp add: Suc mod_mult_right_eq)
  also have "(1 + k * n) * (1 + int j * k * n) = (1 + int (Suc j) * k * n) + (int j * k * k) * (n * n)"
    by (simp add: algebra_simps)
  finally show ?case by simp
qed

lemma unit_power_totient_square:
  fixes r :: int
  assumes p: "prime_integer p" and q: "prime_integer q" and pq: "p \<noteq> q"
    and r: "coprime r (p * q)"
  shows "r ^ (nat (p * q) * nat ((p - 1) * (q - 1))) mod ((p * q) * (p * q)) = 1 mod ((p * q) * (p * q))"
proof -
  let ?n = "p * q" and ?e = "nat ((p - 1) * (q - 1))"
  have g: "1 < p" "1 < q" using p q by (simp_all add: prime_integer_gt_1)
  have n: "int (nat ?n) = ?n" using g by simp
  have "?n dvd r ^ ?e - 1" using unit_power_totient [OF assms] by (simp add: mod_eq_dvd_iff)
  then obtain k where "r ^ ?e - 1 = ?n * k" ..
  then have k: "r ^ ?e = 1 + k * ?n" by (simp add: algebra_simps)
  have "r ^ (nat ?n * ?e) = (r ^ ?e) ^ nat ?n" by (metis power_mult mult.commute)
  also have "\<dots> mod (?n * ?n) = (1 + ?n * k * ?n) mod (?n * ?n)"
    unfolding k one_plus_power n ..
  also have "1 + ?n * k * ?n = 1 + k * (?n * ?n)" by (simp add: algebra_simps)
  finally show ?thesis by simp
qed

section \<open>Square roots and the factors they give away\<close>

lemma prime_square_root_unique:
  assumes p: "prime_integer p" and eq: "x * x mod p = y * y mod p"
  shows "x mod p = y mod p \<or> x mod p = (- y) mod p"
proof -
  have "p dvd (x - y) * (x + y)"
    using eq by (simp add: mod_eq_dvd_iff algebra_simps)
  then have "p dvd x - y \<or> p dvd x + y" using prime_integer_dvd_mult [OF p] by blast
  then show ?thesis by (auto simp: mod_eq_dvd_iff)
qed

lemma gcd_prime_product:
  assumes p: "prime_integer p" and q: "prime_integer q"
    and a: "p dvd a" "\<not> q dvd a"
  shows "gcd a (p * q) = p"
proof -
  have "coprime q a" using q a(2) by (rule prime_integer_coprime)
  then have "gcd a (p * q) = gcd a p" by (simp add: coprime_commute gcd_mult_right_right_cancel)
  also have "\<dots> = p" using a(1) prime_integer_gt_1 [OF p] by (simp add: gcd_proj2_iff)
  finally show ?thesis .
qed

text \<open>
  Two square roots of one number that are neither equal nor opposite modulo \<open>p * q\<close> split it.
\<close>

theorem roots_split_modulus:
  assumes p: "prime_integer p" and q: "prime_integer q" and pq: "p \<noteq> q"
    and eq: "r * r mod (p * q) = s * s mod (p * q)"
    and ne: "\<not> p * q dvd r - s" "\<not> p * q dvd r + s"
  shows "(gcd (r - s) (p * q) = p \<and> gcd (r + s) (p * q) = q)
    \<or> (gcd (r - s) (p * q) = q \<and> gcd (r + s) (p * q) = p)"
proof -
  have cop: "coprime p q" using p q pq by (rule prime_integer_coprime_distinct)
  have "p * q dvd (r - s) * (r + s)" using eq by (simp add: mod_eq_dvd_iff algebra_simps)
  then have d: "p dvd (r - s) * (r + s)" "q dvd (r - s) * (r + s)"
    by (meson dvd_mult_left dvd_mult_right)+
  have dp: "p dvd r - s \<or> p dvd r + s" using d(1) by (rule prime_integer_dvd_mult [OF p])
  have dq: "q dvd r - s \<or> q dvd r + s" using d(2) by (rule prime_integer_dvd_mult [OF q])
  have nb: "\<not> (p dvd r - s \<and> q dvd r - s)" "\<not> (p dvd r + s \<and> q dvd r + s)"
    using ne cop by (auto intro: divides_mult)
  have comm: "q * p = p * q" by simp
  show ?thesis
    using dp dq nb gcd_prime_product [OF p q] gcd_prime_product [OF q p, unfolded comm] by blast
qed

section \<open>Powers of two\<close>

lemma odd_not_dvd_power_2:
  fixes d :: nat
  assumes "odd d" "1 < d"
  shows "\<not> d dvd 2 ^ k"
proof -
  have "coprime d (2 ^ k)" using assms(1) by simp
  then show ?thesis using assms(2) by (metis coprime_absorb_left less_irrefl nat_dvd_1_iff_1 is_unit_gcd gcd_nat.absorb1)
qed

section \<open>Two primes of the same size\<close>

lemma prime_integer_odd: "prime_integer p \<Longrightarrow> 2 < p \<Longrightarrow> odd p"
proof
  assume p: "prime_integer p" "2 < p" and "even p"
  then have "(2 :: int) = 1 \<or> 2 = p" unfolding prime_integer_def by (metis zero_less_numeral)
  then show False using p(2) by simp
qed

lemma prime_not_dvd_pred:
  assumes p: "prime_integer p" and q: "prime_integer q"
    and "4 \<le> p" "4 \<le> q" "q \<le> 2 * p"
  shows "\<not> p dvd q - 1"
proof
  assume "p dvd q - 1"
  then obtain k where k: "q - 1 = p * k" by (rule dvdE)
  have "0 < p * k" using k assms(4) by linarith
  then have "0 < k" using assms(3) by (simp add: zero_less_mult_iff)
  have "p * k < p * 2" using k assms(5) by linarith
  then have "k < 2" using assms(3) mult_less_cancel_left_pos [of p k 2] by linarith
  with \<open>0 < k\<close> have "k = 1" by simp
  then have "q = p + 1" using k by simp
  moreover have "odd p" "odd q" using assms by (simp_all add: prime_integer_odd)
  ultimately show False by simp
qed

end
