(* ===== verification/Cryptopp.thy ===== *)
theory Cryptopp
  imports Prelude Number_Facts
begin

text \<open>
  The functions of the Crypto++ library that the program calls. The library is not part of the
  repository: it is a parameter of the model, the record \<open>cryptopp\<close>, passed to every definition
  whose code calls it. What the program relies on is stated in the predicates
  \<open>encoding_laws\<close>, \<open>modular_laws\<close>, \<open>root_laws\<close>, \<open>size_laws\<close>, \<open>hash_laws\<close> and \<open>cipher_laws\<close>,
  one group of documented behaviours each. A theorem names the groups it needs.

  \<^verbatim>\<open>CryptoPP::Integer\<close> itself is an unbounded signed integer and is modelled by \<open>int\<close>, with its
  operators; \<open>div\<close> and \<open>mod\<close> agree with its \<^verbatim>\<open>/\<close> and \<^verbatim>\<open>%\<close> for the positive divisors of the program
  (the library keeps the remainder non-negative).
\<close>

record cryptopp =
  min_encoded_size :: "int \<Rightarrow> nat"              \<comment> \<open>Integer::MinEncodedSize\<close>
  encode_bytes :: "int \<Rightarrow> nat \<Rightarrow> byte list"      \<comment> \<open>Integer::Encode into a buffer of that size\<close>
  decode_bytes :: "byte list \<Rightarrow> int"            \<comment> \<open>Integer(const byte*, size_t)\<close>
  byte_count :: "int \<Rightarrow> nat"                    \<comment> \<open>Integer::ByteCount\<close>
  bit_count :: "int \<Rightarrow> nat"                     \<comment> \<open>Integer::BitCount\<close>
  get_byte :: "int \<Rightarrow> nat \<Rightarrow> byte"               \<comment> \<open>Integer::GetByte\<close>
  power2 :: "nat \<Rightarrow> int"                        \<comment> \<open>Integer::Power2\<close>
  a_times_b_mod_c :: "int \<Rightarrow> int \<Rightarrow> int \<Rightarrow> int"
  a_exp_b_mod_c :: "int \<Rightarrow> int \<Rightarrow> int \<Rightarrow> int"
  inverse_mod :: "int \<Rightarrow> int \<Rightarrow> int"            \<comment> \<open>a.InverseMod(m)\<close>
  integer_gcd :: "int \<Rightarrow> int \<Rightarrow> int"            \<comment> \<open>GCD\<close>
  crt :: "int \<Rightarrow> int \<Rightarrow> int \<Rightarrow> int \<Rightarrow> int \<Rightarrow> int"  \<comment> \<open>CRT(xp, p, xq, q, u)\<close>
  modular_square_root :: "int \<Rightarrow> int \<Rightarrow> int"    \<comment> \<open>ModularSquareRoot(a, p)\<close>
  mr_square :: "int \<Rightarrow> int \<Rightarrow> int"              \<comment> \<open>ModularArithmetic(n).Square(u)\<close>
  sha256_digest :: "byte list \<Rightarrow> byte list"     \<comment> \<open>SHA256::CalculateDigest\<close>
  aes_ecb_encrypt :: "byte list \<Rightarrow> byte list \<Rightarrow> byte list"
  aes_ecb_decrypt :: "byte list \<Rightarrow> byte list \<Rightarrow> byte list option"  \<comment> \<open>None: InvalidCiphertext\<close>
  aes_ofb_block :: "byte list \<Rightarrow> byte list \<Rightarrow> nat \<Rightarrow> byte list"     \<comment> \<open>key, IV, size\<close>

definition encoding_laws :: "cryptopp \<Rightarrow> bool" where
  "encoding_laws cp \<longleftrightarrow>
     (\<forall>x k. length (encode_bytes cp x k) = k) \<and>
     (\<forall>x k. 0 \<le> x \<and> x < 256 ^ k \<longrightarrow> decode_bytes cp (encode_bytes cp x k) = x) \<and>
     (\<forall>x. 0 \<le> x \<longrightarrow> x < 256 ^ min_encoded_size cp x) \<and>
     (\<forall>bs. 0 \<le> decode_bytes cp bs \<and> decode_bytes cp bs < 256 ^ length bs)"

definition modular_laws :: "cryptopp \<Rightarrow> bool" where
  "modular_laws cp \<longleftrightarrow>
     (\<forall>a b c. 0 < c \<longrightarrow> a_times_b_mod_c cp a b c = a * b mod c) \<and>
     (\<forall>a b c. 0 \<le> b \<and> 0 < c \<longrightarrow> a_exp_b_mod_c cp a b c = a ^ nat b mod c) \<and>
     (\<forall>a m. 1 < m \<and> coprime a m \<longrightarrow>
        0 \<le> inverse_mod cp a m \<and> inverse_mod cp a m < m \<and> a * inverse_mod cp a m mod m = 1) \<and>
     (\<forall>a b. integer_gcd cp a b = gcd a b) \<and>
     (\<forall>n u. 0 < n \<and> 0 \<le> u \<and> u < n \<longrightarrow> mr_square cp n u = u * u mod n) \<and>
     (\<forall>k. power2 cp k = 2 ^ k)"

definition root_laws :: "cryptopp \<Rightarrow> bool" where
  "root_laws cp \<longleftrightarrow>
     (\<forall>a p x. prime_integer p \<and> odd p \<and> x * x mod p = a mod p \<longrightarrow>
        0 \<le> modular_square_root cp a p \<and> modular_square_root cp a p < p \<and>
        modular_square_root cp a p * modular_square_root cp a p mod p = a mod p) \<and>
     (\<forall>xp p xq q u. 1 < p \<and> 1 < q \<and> p * u mod q = 1 \<and> 0 \<le> xp \<and> xp < p \<longrightarrow>
        0 \<le> crt cp xp p xq q u \<and> crt cp xp p xq q u < p * q \<and>
        crt cp xp p xq q u mod p = xp mod p \<and> crt cp xp p xq q u mod q = xq mod q)"

definition size_laws :: "cryptopp \<Rightarrow> bool" where
  "size_laws cp \<longleftrightarrow>
     (\<forall>x. 0 < x \<longrightarrow> 2 ^ (bit_count cp x - 1) \<le> x \<and> x < 2 ^ bit_count cp x) \<and>
     (\<forall>x. 0 < x \<longrightarrow> x < 256 ^ byte_count cp x)"

definition hash_laws :: "cryptopp \<Rightarrow> bool" where
  "hash_laws cp \<longleftrightarrow> (\<forall>m. length (sha256_digest cp m) = 32)"

definition cipher_laws :: "cryptopp \<Rightarrow> bool" where
  "cipher_laws cp \<longleftrightarrow>
     (\<forall>key m. length key = 32 \<longrightarrow> aes_ecb_decrypt cp key (aes_ecb_encrypt cp key m) = Some m) \<and>
     (\<forall>key m. aes_ecb_encrypt cp key m \<noteq> []) \<and>   \<comment> \<open>the padding makes at least one block\<close>
     (\<forall>key iv n. length (aes_ofb_block cp key iv n) = n)"

section \<open>The laws as rewrite rules\<close>

named_theorems lib_laws \<open>documented behaviour of the library, as conditional rewrite rules\<close>

lemma encode_length [lib_laws]: "encoding_laws cp \<Longrightarrow> length (encode_bytes cp x k) = k"
  by (simp add: encoding_laws_def)

lemma decode_encode [lib_laws]:
  "encoding_laws cp \<Longrightarrow> 0 \<le> x \<Longrightarrow> x < 256 ^ k \<Longrightarrow> decode_bytes cp (encode_bytes cp x k) = x"
  by (simp add: encoding_laws_def)

lemma min_encoded_size_fits [lib_laws]:
  "encoding_laws cp \<Longrightarrow> 0 \<le> x \<Longrightarrow> x < 256 ^ min_encoded_size cp x"
  by (simp add: encoding_laws_def)

lemma decode_bounds:
  assumes "encoding_laws cp"
  shows "0 \<le> decode_bytes cp bs" "decode_bytes cp bs < 256 ^ length bs"
  using assms by (simp_all add: encoding_laws_def)

lemma a_times_b_eq [lib_laws]: "modular_laws cp \<Longrightarrow> 0 < c \<Longrightarrow> a_times_b_mod_c cp a b c = a * b mod c"
  by (simp add: modular_laws_def)

lemma a_exp_b_eq [lib_laws]:
  "modular_laws cp \<Longrightarrow> 0 \<le> b \<Longrightarrow> 0 < c \<Longrightarrow> a_exp_b_mod_c cp a b c = a ^ nat b mod c"
  by (simp add: modular_laws_def)

lemma inverse_mod_inverse:
  assumes "modular_laws cp" "1 < m" "coprime a m"
  shows "0 \<le> inverse_mod cp a m" "inverse_mod cp a m < m" "a * inverse_mod cp a m mod m = 1"
  using assms by (simp_all add: modular_laws_def)

lemma integer_gcd_eq [lib_laws]: "modular_laws cp \<Longrightarrow> integer_gcd cp a b = gcd a b"
  by (simp add: modular_laws_def)

lemma modular_square_root_root:
  assumes "root_laws cp" "prime_integer p" "odd p" "x * x mod p = a mod p"
  shows "0 \<le> modular_square_root cp a p" "modular_square_root cp a p < p"
    "modular_square_root cp a p * modular_square_root cp a p mod p = a mod p"
proof -
  have "\<forall>a p x. prime_integer p \<and> odd p \<and> x * x mod p = a mod p \<longrightarrow>
      0 \<le> modular_square_root cp a p \<and> modular_square_root cp a p < p \<and>
      modular_square_root cp a p * modular_square_root cp a p mod p = a mod p"
    using assms(1) by (simp add: root_laws_def)
  then show "0 \<le> modular_square_root cp a p" "modular_square_root cp a p < p"
    "modular_square_root cp a p * modular_square_root cp a p mod p = a mod p"
    using assms(2-4) by blast+
qed

lemma crt_solution:
  assumes "root_laws cp" "1 < p" "1 < q" "p * u mod q = 1" "0 \<le> xp" "xp < p"
  shows "0 \<le> crt cp xp p xq q u" "crt cp xp p xq q u < p * q"
    "crt cp xp p xq q u mod p = xp mod p" "crt cp xp p xq q u mod q = xq mod q"
  using assms by (simp_all add: root_laws_def)

lemma mr_square_eq [lib_laws]:
  "modular_laws cp \<Longrightarrow> 0 < n \<Longrightarrow> 0 \<le> u \<Longrightarrow> u < n \<Longrightarrow> mr_square cp n u = u * u mod n"
  by (simp add: modular_laws_def)

lemma power2_eq [lib_laws]: "modular_laws cp \<Longrightarrow> power2 cp k = 2 ^ k"
  by (simp add: modular_laws_def)

lemma sha256_length [lib_laws]: "hash_laws cp \<Longrightarrow> length (sha256_digest cp m) = 32"
  by (simp add: hash_laws_def)

lemma aes_decrypt_encrypt [lib_laws]:
  "cipher_laws cp \<Longrightarrow> length key = 32 \<Longrightarrow>
     aes_ecb_decrypt cp key (aes_ecb_encrypt cp key m) = Some m"
  by (simp add: cipher_laws_def)

lemma aes_encrypt_nonempty [lib_laws]: "cipher_laws cp \<Longrightarrow> aes_ecb_encrypt cp key m \<noteq> []"
  by (simp add: cipher_laws_def)

lemma aes_ofb_length [lib_laws]: "cipher_laws cp \<Longrightarrow> length (aes_ofb_block cp key iv n) = n"
  by (simp add: cipher_laws_def)

end
