(* ===== verification/Reference_Library.thy ===== *)
theory Reference_Library
  imports Cryptopp
begin

text \<open>
  One concrete library that has all the documented behaviours of \<open>Cryptopp\<close>, for the witnesses: the
  integer functions are the textbook ones, while the hash and the ciphers are the simplest functions
  with the shapes the laws ask for and have no cryptographic strength. Nothing but the witnesses
  uses it.
\<close>

fun ref_encode :: "int \<Rightarrow> nat \<Rightarrow> byte list" where
  "ref_encode x 0 = []"
| "ref_encode x (Suc k) = ref_encode (x div 256) k @ [word_of_int x]"

definition ref_decode :: "byte list \<Rightarrow> int" where
  "ref_decode bs = foldl (\<lambda>a b. a * 256 + uint b) 0 bs"

fun ref_size :: "nat \<Rightarrow> nat" where
  "ref_size x = (if x < 256 then 1 else Suc (ref_size (x div 256)))"

fun ref_bits :: "nat \<Rightarrow> nat" where
  "ref_bits x = (if x = 0 then 0 else Suc (ref_bits (x div 2)))"

declare ref_size.simps [simp del] ref_bits.simps [simp del]

definition ref_inverse :: "int \<Rightarrow> int \<Rightarrow> int" where
  "ref_inverse a m = (case find (\<lambda>x. a * x mod m = 1) [0..m - 1] of Some x \<Rightarrow> x | None \<Rightarrow> 0)"

definition ref_root :: "int \<Rightarrow> int \<Rightarrow> int" where
  "ref_root a p = (case find (\<lambda>x. x * x mod p = a mod p) [0..p - 1] of Some x \<Rightarrow> x | None \<Rightarrow> 0)"

definition ref_cryptopp :: cryptopp where
  "ref_cryptopp = \<lparr>
     min_encoded_size = (\<lambda>x. ref_size (nat x)),
     encode_bytes = ref_encode,
     decode_bytes = ref_decode,
     byte_count = (\<lambda>x. ref_size (nat x)),
     bit_count = (\<lambda>x. ref_bits (nat x)),
     get_byte = (\<lambda>x i. word_of_int (x div 256 ^ i)),
     power2 = (\<lambda>k. 2 ^ k),
     a_times_b_mod_c = (\<lambda>a b c. a * b mod c),
     a_exp_b_mod_c = (\<lambda>a b c. a ^ nat b mod c),
     inverse_mod = ref_inverse,
     integer_gcd = gcd,
     crt = (\<lambda>xp p xq q u. p * (u * (xq - xp) mod q) + xp),
     modular_square_root = ref_root,
     mr_square = (\<lambda>n u. u * u mod n),
     sha256_digest = (\<lambda>m. take 32 (m @ replicate 32 0)),
     aes_ecb_encrypt = (\<lambda>key m. 1 # m),
     aes_ecb_decrypt = (\<lambda>key c. case c of [] \<Rightarrow> None | b # bs \<Rightarrow> if b = 1 then Some bs else None),
     aes_ofb_block = (\<lambda>key iv n. map word_of_nat [0..<n])\<rparr>"

lemma ref_simps:
  "min_encoded_size ref_cryptopp x = ref_size (nat x)"
  "encode_bytes ref_cryptopp x k = ref_encode x k"
  "decode_bytes ref_cryptopp bs = ref_decode bs"
  "byte_count ref_cryptopp x = ref_size (nat x)"
  "bit_count ref_cryptopp x = ref_bits (nat x)"
  "inverse_mod ref_cryptopp a m = ref_inverse a m"
  "a_times_b_mod_c ref_cryptopp a b c = a * b mod c"
  "a_exp_b_mod_c ref_cryptopp a b c = a ^ nat b mod c"
  "sha256_digest ref_cryptopp bs = take 32 (bs @ replicate 32 0)"
  "aes_ecb_encrypt ref_cryptopp key bs = 1 # bs"
  by (simp_all add: ref_cryptopp_def)

section \<open>The laws hold\<close>

lemma ref_encode_length: "length (ref_encode x k) = k"
  by (induction k arbitrary: x) simp_all

lemma ref_decode_snoc: "ref_decode (bs @ [b]) = ref_decode bs * 256 + uint b"
  by (simp add: ref_decode_def)

lemma ref_decode_encode: "0 \<le> x \<Longrightarrow> x < 256 ^ k \<Longrightarrow> ref_decode (ref_encode x k) = x"
proof (induction k arbitrary: x)
  case 0
  then show ?case by (simp add: ref_decode_def)
next
  case (Suc k)
  have "x div 256 < 256 ^ k" using Suc.prems by (simp add: div_less_iff_less_mult mult.commute)
  then have "ref_decode (ref_encode (x div 256) k) = x div 256" using Suc by simp
  moreover have "uint (word_of_int x :: byte) = x mod 256" by (simp add: uint_word_of_int)
  ultimately show ?case by (simp add: ref_decode_snoc)
qed

lemma ref_decode_bounds: "0 \<le> ref_decode bs \<and> ref_decode bs < 256 ^ length bs"
proof (induction bs rule: rev_induct)
  case Nil
  then show ?case by (simp add: ref_decode_def)
next
  case (snoc b bs)
  have "ref_decode bs * 256 + uint b \<le> (256 ^ length bs - 1) * 256 + 255"
    using snoc byte_uint_less [of b] by (intro add_mono mult_right_mono) linarith+
  also have "\<dots> < 256 ^ length (bs @ [b])" by (simp add: algebra_simps)
  finally show ?case using snoc by (simp add: ref_decode_snoc)
qed

lemma ref_size_bound: "x < 256 ^ ref_size x"
proof (induction x rule: ref_size.induct)
  case (1 x)
  show ?case
  proof (cases "x < 256")
    case True
    then show ?thesis by (subst ref_size.simps) simp
  next
    case False
    then have "x div 256 < 256 ^ ref_size (x div 256)" using 1 by simp
    then have "x < 256 * 256 ^ ref_size (x div 256)" by (simp add: div_less_iff_less_mult mult.commute)
    then show ?thesis using False by (subst ref_size.simps) simp
  qed
qed

lemma ref_size_bound_int: "0 \<le> x \<Longrightarrow> x < 256 ^ ref_size (nat x)"
  using ref_size_bound [of "nat x"] by (metis nat_less_iff nat_power_eq of_nat_numeral
      zero_le_numeral of_nat_power)

lemma ref_bits_bound: "x < 2 ^ ref_bits x \<and> (0 < x \<longrightarrow> 2 ^ (ref_bits x - 1) \<le> x)"
proof (induction x rule: ref_bits.induct)
  case (1 x)
  show ?case
  proof (cases "x = 0")
    case True
    then show ?thesis by (simp add: ref_bits.simps)
  next
    case False
    with 1 have ih: "x div 2 < 2 ^ ref_bits (x div 2)"
      "0 < x div 2 \<longrightarrow> 2 ^ (ref_bits (x div 2) - 1) \<le> x div 2" by simp_all
    have e: "ref_bits x = Suc (ref_bits (x div 2))" using False by (subst ref_bits.simps) simp
    have "2 ^ ref_bits (x div 2) \<le> x"
    proof (cases "x div 2 = 0")
      case True
      then show ?thesis using False by (simp add: ref_bits.simps)
    next
      case nz: False
      then have "ref_bits (x div 2) \<noteq> 0" using ih(1) by (intro notI) simp
      then have "(2 :: nat) ^ ref_bits (x div 2) = 2 * 2 ^ (ref_bits (x div 2) - 1)"
        by (metis Suc_diff_1 not_gr_zero power_Suc)
      then show ?thesis using ih(2) nz by linarith
    qed
    moreover have "x < 2 * 2 ^ ref_bits (x div 2)" using ih(1) by linarith
    ultimately show ?thesis by (simp add: e)
  qed
qed

lemma find_upto:
  assumes "P x" "0 \<le> x" "x < m"
  shows "\<exists>y. find P [0..m - 1] = Some y \<and> P y \<and> 0 \<le> y \<and> y < m"
proof -
  have "find P [0..m - 1] \<noteq> None" using assms by (auto simp: find_None_iff)
  then obtain y where y: "find P [0..m - 1] = Some y" by blast
  then have "P y \<and> y \<in> set [0..m - 1]" by (auto simp: find_Some_iff)
  with y show ?thesis by auto
qed

lemma ref_inverse_inverse:
  assumes "1 < m" "coprime a m"
  shows "0 \<le> ref_inverse a m \<and> ref_inverse a m < m \<and> a * ref_inverse a m mod m = 1"
proof -
  obtain u v where "u * a + v * m = 1" using assms(2) bezout_int [of a m] by auto
  then have "a * u = 1 + m * (- v)" by (simp add: algebra_simps)
  then have "a * u mod m = 1" using assms(1) by (metis mod_mult_self2 mod_pos_pos_trivial zero_le_one)
  then have "a * (u mod m) mod m = 1" by (simp add: mod_mult_right_eq)
  then obtain y where "find (\<lambda>x. a * x mod m = 1) [0..m - 1] = Some y \<and> a * y mod m = 1 \<and> 0 \<le> y \<and> y < m"
    using find_upto [of "\<lambda>x. a * x mod m = 1" "u mod m" m] assms(1) by auto
  then show ?thesis by (simp add: ref_inverse_def)
qed

lemma ref_root_root:
  assumes "1 < p" "x * x mod p = a mod p"
  shows "0 \<le> ref_root a p \<and> ref_root a p < p \<and> ref_root a p * ref_root a p mod p = a mod p"
proof -
  have "(x mod p) * (x mod p) mod p = a mod p" using assms(2) by (simp add: mod_mult_eq)
  then obtain y where "find (\<lambda>x. x * x mod p = a mod p) [0..p - 1] = Some y \<and>
      y * y mod p = a mod p \<and> 0 \<le> y \<and> y < p"
    using find_upto [of "\<lambda>x. x * x mod p = a mod p" "x mod p" p] assms(1) by auto
  then show ?thesis by (simp add: ref_root_def)
qed

lemma ref_crt_solution:
  fixes p q u xp xq :: int
  assumes "1 < p" "1 < q" "p * u mod q = 1" "0 \<le> xp" "xp < p"
  defines "x \<equiv> p * (u * (xq - xp) mod q) + xp"
  shows "0 \<le> x \<and> x < p * q \<and> x mod p = xp mod p \<and> x mod q = xq mod q"
proof -
  have b: "0 \<le> u * (xq - xp) mod q" "u * (xq - xp) mod q \<le> q - 1" using assms(2) by simp_all
  then have "p * (u * (xq - xp) mod q) \<le> p * (q - 1)" using assms(1) by (intro mult_left_mono) simp_all
  then have "x < p * q" using assms(5) by (simp add: x_def algebra_simps)
  moreover have "0 \<le> x" using b(1) assms(1,4) by (simp add: x_def)
  moreover have "x mod p = xp mod p" by (simp add: x_def)
  moreover have "p * (u * (xq - xp) mod q) mod q = (p * u mod q) * (xq - xp) mod q"
    by (simp add: mod_mult_left_eq mod_mult_right_eq mult.assoc)
  then have "x mod q = ((xq - xp) + xp) mod q"
    unfolding x_def using assms(3) by (metis mod_add_left_eq mult_1)
  ultimately show ?thesis by simp
qed

lemma ref_laws:
  "encoding_laws ref_cryptopp" "modular_laws ref_cryptopp" "root_laws ref_cryptopp"
  "size_laws ref_cryptopp" "hash_laws ref_cryptopp" "cipher_laws ref_cryptopp"
proof -
  show "encoding_laws ref_cryptopp"
    by (simp add: encoding_laws_def ref_cryptopp_def ref_encode_length ref_decode_encode
        ref_decode_bounds ref_size_bound_int)
  show "modular_laws ref_cryptopp"
    by (simp add: modular_laws_def ref_cryptopp_def ref_inverse_inverse)
  show "root_laws ref_cryptopp"
    unfolding root_laws_def
    by (auto simp: ref_cryptopp_def ref_root_root prime_integer_gt_1 ref_crt_solution)
  have "2 ^ (ref_bits (nat x) - 1) \<le> x \<and> x < 2 ^ ref_bits (nat x)" if "0 < x" for x :: int
    using ref_bits_bound [of "nat x"] that
    by (metis int_nat_eq less_imp_le nat_less_iff nat_power_eq of_nat_le_iff of_nat_numeral
        of_nat_power zero_le_numeral zero_less_nat_eq)
  then show "size_laws ref_cryptopp"
    by (simp add: size_laws_def ref_cryptopp_def ref_size_bound_int)
  show "hash_laws ref_cryptopp" by (auto simp: hash_laws_def ref_cryptopp_def)
  show "cipher_laws ref_cryptopp" by (simp add: cipher_laws_def ref_cryptopp_def)
qed

end
