(* ===== verification/Square_Root.thy ===== *)
theory Square_Root
  imports Reference_Library
begin

text \<open>
  common/square_root.h and common/square_root.cpp: square roots modulo \<open>n = p * q\<close>, found modulo
  each prime by the library and combined by the Chinese remainder theorem. The result \<open>-1\<close> says
  that there is no root.
\<close>

section \<open>The class\<close>

record square_root_class =
  sr_p :: int
  sr_q :: int
  sr_n :: int
  sr_u :: int

definition SquareRoot :: "cryptopp \<Rightarrow> int \<Rightarrow> int \<Rightarrow> square_root_class" where
  "SquareRoot cp p q = \<lparr>sr_p = p, sr_q = q, sr_n = p * q, sr_u = inverse_mod cp p q\<rparr>"

definition square_root ::
    "cryptopp \<Rightarrow> square_root_class \<Rightarrow> int \<Rightarrow> int \<Rightarrow> int \<Rightarrow> exn + int" where
  "square_root cp sr a sign_x sign_y =
     (if sign_y \<noteq> -1 \<and> sign_y \<noteq> 1 then Inl StdException
      else if sign_x \<noteq> -1 \<and> sign_x \<noteq> 1 then Inl StdException
      else
        let xp = modular_square_root cp a (sr_p sr);
            xq = modular_square_root cp a (sr_q sr);
            xp = (if sign_x = -1 then sr_p sr - xp else xp);
            xq = (if sign_y = -1 then sr_q sr - xq else xq);
            root = crt cp xp (sr_p sr) xq (sr_q sr) (sr_u sr)
        in if root * root mod sr_n sr \<noteq> a then Inr (-1) else Inr root)"

definition all_square_roots :: "cryptopp \<Rightarrow> square_root_class \<Rightarrow> int \<Rightarrow> exn + int list" where
  "all_square_roots cp sr a =
     sum_then (square_root cp sr a (-1) (-1)) (\<lambda>r1.
     sum_then (square_root cp sr a 1 (-1)) (\<lambda>r2.
     sum_then (square_root cp sr a (-1) 1) (\<lambda>r3.
     sum_then (square_root cp sr a 1 1) (\<lambda>r4.
       Inr (sort [r1, r2, r3, r4])))))"

section \<open>Roots for one choice of signs\<close>

text \<open>The setting of the lemmas: two odd primes, and a unit \<open>a\<close> that is a square modulo \<open>p * q\<close>.\<close>

definition root_setting :: "cryptopp \<Rightarrow> int \<Rightarrow> int \<Rightarrow> int \<Rightarrow> bool" where
  "root_setting cp p q a \<longleftrightarrow>
     root_laws cp \<and> modular_laws cp \<and>
     prime_integer p \<and> prime_integer q \<and> odd p \<and> odd q \<and> p \<noteq> q \<and>
     \<not> p dvd a \<and> \<not> q dvd a \<and> (\<exists>x. x * x mod (p * q) = a)"

lemma root_setting_primes:
  assumes "root_setting cp p q a"
  shows "1 < p" "1 < q" "coprime p q" "0 < p * q" "p * inverse_mod cp p q mod q = 1"
proof -
  show p: "1 < p" and q: "1 < q"
    using assms by (simp_all add: root_setting_def prime_integer_gt_1)
  show c: "coprime p q"
    using assms by (simp add: root_setting_def prime_integer_coprime_distinct)
  show "0 < p * q" using p q by simp
  show "p * inverse_mod cp p q mod q = 1"
    using assms q c by (simp add: root_setting_def inverse_mod_inverse)
qed

lemma mod_product_cases:
  fixes p q :: int
  assumes "x mod (p * q) = y mod (p * q)"
  shows "x mod p = y mod p" "x mod q = y mod q"
  using assms by (auto simp: mod_eq_dvd_iff intro: dvd_mult_left dvd_mult_right)

lemma root_setting_residues:
  assumes st: "root_setting cp p q a"
  defines "xp \<equiv> modular_square_root cp a p" and "xq \<equiv> modular_square_root cp a q"
  shows "0 < xp" "xp < p" "xp * xp mod p = a mod p"
    and "0 < xq" "xq < q" "xq * xq mod q = a mod q"
proof -
  obtain x where "x * x mod (p * q) = a" using st by (auto simp: root_setting_def)
  then have "x * x mod (p * q) = a mod (p * q)" by (metis mod_mod_trivial)
  then have x: "x * x mod p = a mod p" "x * x mod q = a mod q"
    by (rule mod_product_cases)+
  have st': "root_laws cp" "prime_integer p" "odd p" "prime_integer q" "odd q" "\<not> p dvd a" "\<not> q dvd a"
    using st by (simp_all add: root_setting_def)
  note rp = modular_square_root_root [OF st'(1) st'(2) st'(3) x(1), folded xp_def]
  note rq = modular_square_root_root [OF st'(1) st'(4) st'(5) x(2), folded xq_def]
  show "xp < p" "xp * xp mod p = a mod p" "xq < q" "xq * xq mod q = a mod q"
    using rp rq by simp_all
  have "xp \<noteq> 0" using rp(3) st'(6) by (auto simp: mod_eq_0_iff_dvd)
  moreover have "xq \<noteq> 0" using rq(3) st'(7) by (auto simp: mod_eq_0_iff_dvd)
  ultimately show "0 < xp" "0 < xq" using rp(1) rq(1) by simp_all
qed

lemma square_root_signed:
  assumes st: "root_setting cp p q a" and sx: "sx = 1 \<or> sx = -1" and sy: "sy = 1 \<or> sy = -1"
  defines "xp \<equiv> modular_square_root cp a p" and "xq \<equiv> modular_square_root cp a q"
  shows "\<exists>r. square_root cp (SquareRoot cp p q) a sx sy = Inr r \<and> 0 \<le> r \<and> r < p * q \<and>
           r * r mod (p * q) = a \<and> r mod p = sx * xp mod p \<and> r mod q = sy * xq mod q"
proof -
  note pr = root_setting_primes [OF st] and res = root_setting_residues [OF st, folded xp_def xq_def]
  let ?xp = "if sx = -1 then p - xp else xp" and ?xq = "if sy = -1 then q - xq else xq"
  let ?r = "crt cp ?xp p ?xq q (inverse_mod cp p q)"
  have xp: "0 \<le> ?xp" "?xp < p" "?xp mod p = sx * xp mod p"
    using sx res by (auto simp: zmod_zminus1_eq_if)
  have xq: "?xq mod q = sy * xq mod q" using sy res by (auto simp: zmod_zminus1_eq_if)
  have rl: "root_laws cp" using st by (simp add: root_setting_def)
  note r = crt_solution [OF rl pr(1,2,5) xp(1,2), of ?xq]
  have "?r * ?r mod p = (sx * xp) * (sx * xp) mod p"
    using r(3) xp(3) by (metis mod_mult_eq)
  then have rp: "?r * ?r mod p = a mod p" using res(3) sx by auto
  have "?r * ?r mod q = (sy * xq) * (sy * xq) mod q"
    using r(4) xq by (metis mod_mult_eq)
  then have rq: "?r * ?r mod q = a mod q" using res(6) sy by auto
  have "?r * ?r mod (p * q) = a mod (p * q)"
    using mod_eq_mult_coprime [OF pr(3) rp rq] .
  moreover have "a mod (p * q) = a" using st by (auto simp: root_setting_def)
  ultimately have sq: "?r * ?r mod (p * q) = a" by simp
  have "square_root cp (SquareRoot cp p q) a sx sy = Inr ?r"
    using sx sy sq unfolding square_root_def SquareRoot_def Let_def xp_def xq_def
    by (elim disjE) (simp_all del: mult_eq_if)
  then show ?thesis
    using r sq by (simp only: xp(3) xq) blast
qed


text \<open>The setting is met by 7, 11 and the square 4.\<close>

lemma root_setting_ref: "root_setting ref_cryptopp 7 11 4"
proof -
  have "prime_integer 7" "prime_integer 11" by (simp_all add: prime_integer_code upto_rec_numeral)
  moreover have "(2::int) * 2 mod (7 * 11) = 4" by simp
  then have "\<exists>x::int. x * x mod (7 * 11) = 4" by blast
  ultimately show ?thesis by (simp add: root_setting_def ref_laws)
qed

section \<open>All roots\<close>

text \<open>What \<open>all_square_roots\<close> is meant to compute.\<close>

definition roots_modulo :: "int \<Rightarrow> int \<Rightarrow> int set" where
  "roots_modulo n a = {r. 0 \<le> r \<and> r < n \<and> r * r mod n = a}"

lemma odd_prime_neg_distinct:
  assumes "prime_integer p" "odd p" "0 < x" "x < p"
  shows "x mod p \<noteq> - x mod p"
proof
  assume "x mod p = - x mod p"
  then have "p dvd 2 * x" by (simp add: mod_eq_dvd_iff)
  then have "p dvd 2 \<or> p dvd x" by (rule prime_integer_dvd_mult [OF assms(1)])
  moreover have "\<not> p dvd x" using assms(3,4) by (auto dest: zdvd_imp_le)
  moreover have "\<not> p dvd 2"
  proof
    assume "p dvd 2"
    then have "p \<le> 2" by (simp add: zdvd_imp_le)
    with prime_integer_gt_1 [OF assms(1)] have "p = 2" by simp
    with assms(2) show False by simp
  qed
  ultimately show False by simp
qed

lemma residues_determine:
  fixes p q :: int
  assumes "coprime p q" "0 \<le> r" "r < p * q" "0 \<le> s" "s < p * q"
    and "r mod p = s mod p" "r mod q = s mod q"
  shows "r = s"
  using mod_eq_mult_coprime [OF assms(1,6,7)] assms(2-5) by simp

lemma all_square_roots_four:
  assumes st: "root_setting cp p q a"
  shows "\<exists>rs. all_square_roots cp (SquareRoot cp p q) a = Inr (sort rs) \<and> length rs = 4 \<and>
           distinct rs \<and> set rs = roots_modulo (p * q) a"
proof -
  let ?sr = "SquareRoot cp p q" and ?n = "p * q"
  define xp xq where "xp = modular_square_root cp a p" and "xq = modular_square_root cp a q"
  note pr = root_setting_primes [OF st]
  note res = root_setting_residues [OF st, folded xp_def xq_def]
  note sgn = square_root_signed [OF st, folded xp_def xq_def]
  have pp: "prime_integer p" "odd p" "prime_integer q" "odd q" using st by (simp_all add: root_setting_def)
  have np: "xp mod p \<noteq> - xp mod p" by (rule odd_prime_neg_distinct [OF pp(1,2) res(1,2)])
  have nq: "xq mod q \<noteq> - xq mod q" by (rule odd_prime_neg_distinct [OF pp(3,4) res(4,5)])
  obtain r1 where r1: "square_root cp ?sr a (-1) (-1) = Inr r1" "0 \<le> r1" "r1 < ?n" "r1 * r1 mod ?n = a"
    "r1 mod p = - xp mod p" "r1 mod q = - xq mod q" using sgn [of "-1" "-1"] by auto
  obtain r2 where r2: "square_root cp ?sr a 1 (-1) = Inr r2" "0 \<le> r2" "r2 < ?n" "r2 * r2 mod ?n = a"
    "r2 mod p = xp mod p" "r2 mod q = - xq mod q" using sgn [of 1 "-1"] by auto
  obtain r3 where r3: "square_root cp ?sr a (-1) 1 = Inr r3" "0 \<le> r3" "r3 < ?n" "r3 * r3 mod ?n = a"
    "r3 mod p = - xp mod p" "r3 mod q = xq mod q" using sgn [of "-1" 1] by auto
  obtain r4 where r4: "square_root cp ?sr a 1 1 = Inr r4" "0 \<le> r4" "r4 < ?n" "r4 * r4 mod ?n = a"
    "r4 mod p = xp mod p" "r4 mod q = xq mod q" using sgn [of 1 1] by auto
  have dist: "distinct [r1, r2, r3, r4]"
    using r1(5,6) r2(5,6) r3(5,6) r4(5,6) np nq by auto
  have "s \<in> {r1, r2, r3, r4}" if s: "0 \<le> s" "s < ?n" "s * s mod ?n = a" for s
  proof -
    have "s * s mod ?n = r4 * r4 mod ?n" using s(3) r4(4) by simp
    then have "s * s mod p = r4 * r4 mod p" "s * s mod q = r4 * r4 mod q"
      by (rule mod_product_cases)+
    then have "s mod p = r4 mod p \<or> s mod p = - r4 mod p" "s mod q = r4 mod q \<or> s mod q = - r4 mod q"
      using prime_square_root_unique pp by blast+
    moreover have "- r4 mod p = - xp mod p" "- r4 mod q = - xq mod q"
      using mod_minus_eq [of r4 p] mod_minus_eq [of r4 q] mod_minus_eq [of xp p] mod_minus_eq [of xq q]
      by (simp_all only: r4(5,6))
    ultimately have "s mod p = xp mod p \<or> s mod p = - xp mod p" "s mod q = xq mod q \<or> s mod q = - xq mod q"
      using r4(5,6) by simp_all
    then consider "s mod p = r1 mod p" "s mod q = r1 mod q" | "s mod p = r2 mod p" "s mod q = r2 mod q"
      | "s mod p = r3 mod p" "s mod q = r3 mod q" | "s mod p = r4 mod p" "s mod q = r4 mod q"
      unfolding r1(5,6) r2(5,6) r3(5,6) r4(5,6) by blast
    then have "s = r1 \<or> s = r2 \<or> s = r3 \<or> s = r4"
      using residues_determine [OF pr(3) s(1,2) r1(2,3)] residues_determine [OF pr(3) s(1,2) r2(2,3)]
        residues_determine [OF pr(3) s(1,2) r3(2,3)] residues_determine [OF pr(3) s(1,2) r4(2,3)]
      by cases simp_all
    then show ?thesis by simp
  qed
  then have "set [r1, r2, r3, r4] = roots_modulo ?n a"
    using r1 r2 r3 r4 by (auto simp: roots_modulo_def)
  with dist show ?thesis
    by (intro exI [of _ "[r1, r2, r3, r4]"]) (simp add: all_square_roots_def r1(1) r2(1) r3(1) r4(1))
qed

text \<open>C19: for a unit that is a square, the result is the sorted list of its four square roots.\<close>

theorem all_square_roots_exact:
  assumes "root_setting cp p q a"
  shows "\<exists>rs. all_square_roots cp (SquareRoot cp p q) a = Inr rs \<and> sorted rs \<and> distinct rs \<and>
           length rs = 4 \<and> set rs = roots_modulo (p * q) a"
proof -
  obtain rs where rs: "all_square_roots cp (SquareRoot cp p q) a = Inr (sort rs)" "length rs = 4"
    "distinct rs" "set rs = roots_modulo (p * q) a"
    using all_square_roots_four [OF assms] by blast
  then show ?thesis by (intro exI [of _ "sort rs"]) simp
qed


theorem all_square_roots_exact_witness:
  "root_setting ref_cryptopp 7 11 4 \<and>
   (\<exists>rs. all_square_roots ref_cryptopp (SquareRoot ref_cryptopp 7 11) 4 = Inr rs \<and> sorted rs \<and>
      distinct rs \<and> length rs = 4 \<and> set rs = roots_modulo (7 * 11) 4)"
  using root_setting_ref all_square_roots_exact [OF root_setting_ref] by blast

section \<open>The order of the roots, and what the two smallest give away\<close>

lemma roots_modulo_opposite:
  assumes "r \<in> roots_modulo n a" "r \<noteq> 0"
  shows "n - r \<in> roots_modulo n a"
proof -
  have "(n - r) * (n - r) = r * r + n * (n - 2 * r)" by (simp add: algebra_simps)
  then have "(n - r) * (n - r) mod n = r * r mod n" by (metis mod_mult_self2)
  with assms show ?thesis by (simp add: roots_modulo_def)
qed

lemma root_setting_nonzero:
  assumes "root_setting cp p q a" "r \<in> roots_modulo (p * q) a"
  shows "r \<noteq> 0"
  using assms by (auto simp: root_setting_def roots_modulo_def)

lemma sorted_opposites:
  fixes rs :: "int list"
  assumes "sorted rs" "distinct rs" "\<And>r. r \<in> set rs \<Longrightarrow> n - r \<in> set rs"
  shows "rev (map (\<lambda>r. n - r) rs) = rs"
proof (rule sorted_distinct_set_unique)
  show "sorted (rev (map (\<lambda>r. n - r) rs))"
    using assms(1) by (simp add: sorted_wrt_rev sorted_wrt_map)
  show "distinct (rev (map (\<lambda>r. n - r) rs))"
    using assms(2) by (simp add: distinct_map inj_on_def)
  show "set (rev (map (\<lambda>r. n - r) rs)) = set rs"
    using assms(3) by (force simp: image_iff)
qed (use assms in auto)

lemma all_square_roots_halves:
  assumes st: "root_setting cp p q a" and rs: "all_square_roots cp (SquareRoot cp p q) a = Inr rs"
  shows "\<exists>r s. rs = [r, s, p * q - s, p * q - r] \<and> 0 < r \<and> r < s \<and> s \<le> (p * q) div 2
    \<and> r \<in> roots_modulo (p * q) a \<and> s \<in> roots_modulo (p * q) a"
proof -
  let ?n = "p * q"
  have l: "sorted rs" "distinct rs" "length rs = 4" "set rs = roots_modulo ?n a"
    using all_square_roots_exact [OF st] rs by auto
  obtain r s t u where e: "rs = [r, s, t, u]"
    using l(3) by (auto simp: length_Suc_conv numeral_eq_Suc)
  have "rev (map (\<lambda>x. ?n - x) rs) = rs"
    by (rule sorted_opposites) (use l roots_modulo_opposite root_setting_nonzero [OF st] in blast)+
  then have tu: "t = ?n - s" "u = ?n - r" by (simp_all add: e)
  have "r \<in> roots_modulo ?n a" "s \<in> roots_modulo ?n a" using l(4) e by auto
  moreover from this have "0 < r" using root_setting_nonzero [OF st] by (force simp: roots_modulo_def)
  moreover have "r < s" "s < t" using l(1,2) e by auto
  ultimately show ?thesis using tu e by auto
qed

text \<open>
  C20: the first two of the sorted roots are at most \<open>n / 2\<close>, the last two are above it.
\<close>

theorem all_square_roots_bounds:
  assumes "root_setting cp p q a"
  shows "\<exists>r0 r1 r2 r3. all_square_roots cp (SquareRoot cp p q) a = Inr [r0, r1, r2, r3]
    \<and> 0 < r0 \<and> r0 < r1 \<and> r1 \<le> (p * q) div 2 \<and> (p * q) div 2 < r2 \<and> r2 < r3 \<and> r3 < p * q"
proof -
  obtain rs where rs: "all_square_roots cp (SquareRoot cp p q) a = Inr rs"
    using all_square_roots_four [OF assms] by blast
  obtain r s where h: "rs = [r, s, p * q - s, p * q - r]" "0 < r" "r < s" "s \<le> (p * q) div 2"
    using all_square_roots_halves [OF assms rs] by blast
  have "odd (p * q)" using assms by (simp add: root_setting_def)
  then have "p * q = 2 * ((p * q) div 2) + 1" by simp
  then have "(p * q) div 2 < p * q - s" using h(4) by linarith
  with h rs show ?thesis by auto
qed

theorem all_square_roots_bounds_witness:
  "\<exists>r0 r1 r2 r3. all_square_roots ref_cryptopp (SquareRoot ref_cryptopp 7 11) 4 = Inr [r0, r1, r2, r3]
    \<and> 0 < r0 \<and> r0 < r1 \<and> r1 \<le> (7 * 11) div 2 \<and> (7 * 11) div 2 < r2 \<and> r2 < r3 \<and> r3 < 7 * 11"
  by (rule all_square_roots_bounds [OF root_setting_ref])

lemma small_roots_split:
  assumes p: "prime_integer p" and q: "prime_integer q" and pq: "p \<noteq> q"
    and r: "0 < r" "r < s" "s \<le> (p * q) div 2"
    and sq: "r * r mod (p * q) = s * s mod (p * q)"
  shows "gcd (r - s) (p * q) * gcd (r + s) (p * q) = p * q
    \<and> {gcd (r - s) (p * q), gcd (r + s) (p * q)} = {p, q}"
proof -
  let ?n = "p * q"
  have n: "2 * s \<le> ?n" using r(3) by simp
  have "\<not> ?n dvd s - r" "\<not> ?n dvd r + s" using n r by (auto dest: zdvd_imp_le)
  then have "\<not> ?n dvd r - s" "\<not> ?n dvd r + s" by (simp_all add: dvd_diff_commute)
  from roots_split_modulus [OF p q pq sq this] show ?thesis by (auto simp: mult.commute)
qed

end
