(* ===== verification/Protocol.thy ===== *)
theory Protocol
  imports Prelude
begin

text \<open>
  protocol.h: the interface \<^verbatim>\<open>Protocol<A, B>\<close> of a two-party protocol, three operations on a pair of
  parties, and what cut-and-choose expects of the second party, the flag read by
  \<^verbatim>\<open>getOpenVerified\<close>. The random numbers of the \<open>i\<close>-th execution are part of the operation, so
  \<open>init\<close> and \<open>exec\<close> are indexed by the execution.

  Two contracts of the interface are stated as locales. \<open>sound_opening\<close> is what the verifier
  relies on against any prover; \<open>honest_protocol\<close> is what two honest parties can expect. A third
  locale, \<open>recomputed_commitment\<close>, is the contract of the hash commitments.
\<close>

type_synonym ('a, 'b) step = "('a \<times> 'b, unit) comp"

section \<open>A verified opening proves something about the verifier\<close>

locale sound_opening =
  fixes reveal :: "('a, 'b) step"
    and verified :: "'b \<Rightarrow> bool"
    and checked :: "'b \<Rightarrow> bool"
  assumes reveal_checked: "reveal (a, b) = (Inr (), a', b') \<Longrightarrow> verified b' \<Longrightarrow> checked b'"

section \<open>Two honest parties\<close>

locale honest_protocol =
  fixes init exec :: "nat \<Rightarrow> ('a, 'b) step"
    and reveal :: "('a, 'b) step"
    and verified :: "'b \<Rightarrow> bool"
    and fresh ready :: "nat \<Rightarrow> 'a \<Rightarrow> 'b \<Rightarrow> bool"
  assumes run_ready: "fresh i a b \<Longrightarrow> \<exists>a' b'. seq (init i) (exec i) (a, b) = (Inr (), a', b') \<and> ready i a' b'"
    and open_verified: "ready i a b \<Longrightarrow> \<exists>a' b'. reveal (a, b) = (Inr (), a', b') \<and> verified b'"

section \<open>Commitments that are opened by recomputation\<close>

locale recomputed_commitment =
  fixes commit :: "'m \<Rightarrow> 'c"
    and verify :: "'c \<Rightarrow> 'm \<Rightarrow> bool"
    and same :: "'c \<Rightarrow> 'c \<Rightarrow> bool"
  assumes verify_recomputes: "verify c m \<longleftrightarrow> same c (commit m)"
    and same_refl: "same c c"
    and same_sym: "same c d \<Longrightarrow> same d c"
    and same_trans: "same c d \<Longrightarrow> same d e \<Longrightarrow> same c e"
begin

lemma commit_verifies: "verify (commit m) m"
  by (simp add: verify_recomputes same_refl)

lemma two_openings_collide: "verify c m \<Longrightarrow> verify c m' \<Longrightarrow> same (commit m) (commit m')"
  unfolding verify_recomputes by (blast intro: same_sym same_trans)

lemma wrong_message_rejected: "\<not> same (commit m) (commit m') \<Longrightarrow> \<not> verify (commit m) m'"
  by (simp add: verify_recomputes)

end

end
