(* ===== verification/Common.thy ===== *)
theory Common
  imports Reference_Library
begin

text \<open>
  common/common.h, common/common.cpp, common/aes.h and common/aes.cpp: the parameters of the
  protocol, byte and string conversions, and the AES wrappers.

  The README invites the reader to change the parameters of common.h, so the protocol is modelled
  over a record of them, and \<open>common_params\<close> is the instance in the source. \<^verbatim>\<open>std::string\<close> is a HOL
  \<open>string\<close>, whose characters are the 256 byte values.
\<close>

section \<open>Parameters\<close>

record params =
  par_T :: nat
  par_K :: nat
  par_L :: nat
  par_R :: nat

definition common_params :: params where
  "common_params = \<lparr>par_T = 512, par_K = 37, par_L = 2048, par_R = 8\<rparr>"

section \<open>Conversions\<close>

definition byte_of_char :: "char \<Rightarrow> byte" where
  "byte_of_char c = word_of_nat (of_char c)"

definition char_of_byte :: "byte \<Rightarrow> char" where
  "char_of_byte b = char_of (unat b)"

definition concatenate :: "'a list \<Rightarrow> 'a list \<Rightarrow> 'a list" where
  "concatenate x y = (let res = [] @ x in res @ y)"

definition to_bytes :: "cryptopp \<Rightarrow> int \<Rightarrow> byte list" where
  "to_bytes cp x = encode_bytes cp x (min_encoded_size cp x)"

definition integer2string :: "cryptopp \<Rightarrow> int \<Rightarrow> string" where
  "integer2string cp ix = (let vx = to_bytes cp ix in map char_of_byte vx)"

definition hex_lut :: string where
  "hex_lut = ''0123456789ABCDEF''"

text \<open>The loop over the input: two characters of the table per byte, the high nibble first.\<close>

fun string2hex :: "string \<Rightarrow> string" where
  "string2hex [] = []"
| "string2hex (c # cs) =
     (let c' = byte_of_char c
      in hex_lut ! unat (drop_bit 4 c') # hex_lut ! unat (and c' 15) # string2hex cs)"

definition string2v :: "string \<Rightarrow> byte list" where
  "string2v input = map byte_of_char input"

definition v2string :: "byte list \<Rightarrow> string" where
  "v2string input = map char_of_byte input"

section \<open>AES in ECB mode\<close>

definition AES_LENGTH :: nat where
  "AES_LENGTH = 32"

text \<open>The overloads on a raw key pointer, on a 32-byte array and on a vector of any length.\<close>

definition enc_key :: "cryptopp \<Rightarrow> byte list \<Rightarrow> byte list \<Rightarrow> byte list" where
  "enc_key cp key msg = aes_ecb_encrypt cp key msg"

definition enc_array :: "cryptopp \<Rightarrow> byte list \<Rightarrow> byte list \<Rightarrow> byte list" where
  "enc_array cp key msg = enc_key cp key msg"

definition enc_vector :: "cryptopp \<Rightarrow> byte list \<Rightarrow> byte list \<Rightarrow> exn + byte list" where
  "enc_vector cp key msg =
     (if length key \<noteq> AES_LENGTH then Inl (ProtocolException ''Invalid length'')
      else Inr (enc_key cp key msg))"

definition dec_key :: "cryptopp \<Rightarrow> byte list \<Rightarrow> byte list \<Rightarrow> exn + byte list" where
  "dec_key cp key msg =
     (case aes_ecb_decrypt cp key msg of None \<Rightarrow> Inl InvalidCiphertext | Some plain \<Rightarrow> Inr plain)"

definition dec_array :: "cryptopp \<Rightarrow> byte list \<Rightarrow> byte list \<Rightarrow> exn + byte list" where
  "dec_array cp key msg = dec_key cp key msg"

definition dec_vector :: "cryptopp \<Rightarrow> byte list \<Rightarrow> byte list \<Rightarrow> exn + byte list" where
  "dec_vector cp key msg =
     (if length key \<noteq> AES_LENGTH then Inl StdException else dec_key cp key msg)"

section \<open>Lemmas\<close>

lemma byte_of_char_of_byte [simp]: "byte_of_char (char_of_byte b) = b"
  by (simp add: byte_of_char_def char_of_byte_def)

lemma char_of_byte_of_char [simp]: "char_of_byte (byte_of_char c) = c"
proof -
  have "of_char c < (256 :: nat)" by simp
  then have "unat (word_of_nat (of_char c) :: byte) = of_char c"
    by (simp add: unat_of_nat)
  then show ?thesis by (simp add: byte_of_char_def char_of_byte_def)
qed

lemma concatenate_append [simp]: "concatenate x y = x @ y"
  by (simp add: concatenate_def)

lemma decode_to_bytes [lib_laws]:
  "encoding_laws cp \<Longrightarrow> 0 \<le> x \<Longrightarrow> decode_bytes cp (to_bytes cp x) = x"
  by (simp add: to_bytes_def lib_laws)


text \<open>The specification of \<open>string2hex\<close>: reading two hexadecimal digits gives the byte back.\<close>

definition hex_digit :: "char \<Rightarrow> nat option" where
  "hex_digit c = find (\<lambda>i. hex_lut ! i = c) [0..<16]"

fun hex2v :: "string \<Rightarrow> byte list option" where
  "hex2v [] = Some []"
| "hex2v [c] = None"
| "hex2v (c # d # cs) =
     (case (hex_digit c, hex_digit d, hex2v cs) of
        (Some h, Some l, Some bs) \<Rightarrow> Some (word_of_nat (16 * h + l) # bs)
      | _ \<Rightarrow> None)"

lemma hex_digit_lut: "n < 16 \<Longrightarrow> hex_digit (hex_lut ! n) = Some n"
proof -
  have "\<forall>n\<in>set [0..<16]. hex_digit (hex_lut ! n) = Some n"
    by (simp add: hex_digit_def hex_lut_def upt_rec)
  then show "n < 16 \<Longrightarrow> hex_digit (hex_lut ! n) = Some n" by simp
qed

lemma high_nibble: "unat (drop_bit 4 (b :: byte)) = unat b div 16"
  by (simp add: drop_bit_eq_div unat_div)

lemma low_nibble: "unat (and (b :: byte) 15) = unat b mod 16"
proof -
  have "and b 15 = take_bit 4 b" by (simp add: take_bit_eq_mask mask_eq_exp_minus_1)
  then show ?thesis by (simp add: unsigned_take_bit_eq take_bit_eq_mod unat_mod)
qed

text \<open>The hexadecimal dump of a string has two digits per byte and determines the bytes.\<close>

theorem string2hex_roundtrip:
  "hex2v (string2hex s) = Some (string2v s) \<and> length (string2hex s) = 2 * length s"
proof (induction s)
  case Nil
  then show ?case by (simp add: string2v_def)
next
  case (Cons c cs)
  let ?b = "byte_of_char c"
  have "unat ?b < 256" by simp
  then have "unat ?b div 16 < 16" by (simp add: less_mult_imp_div_less)
  then have "hex_digit (hex_lut ! (unat ?b div 16)) = Some (unat ?b div 16)"
    "hex_digit (hex_lut ! (unat ?b mod 16)) = Some (unat ?b mod 16)"
    by (simp_all add: hex_digit_lut)
  with Cons show ?case
    by (simp add: Let_def high_nibble low_nibble string2v_def)
qed

lemma v2string_string2v: "v2string (string2v s) = s" "string2v (v2string bs) = bs"
  by (simp_all add: v2string_def string2v_def comp_def)

end
