(* ===== verification/Regular_Commitment.thy ===== *)
theory Regular_Commitment
  imports Protocol Common
begin

text \<open>
  timed_commitment/regular_commitment.h and regular_commitment.cpp: the SHA-256 digest of an
  integer as a commitment to it.
\<close>

definition COMMITMENT_SIZE :: nat where
  "COMMITMENT_SIZE = 256 div 8"

record RegularCommitment =
  digest :: "byte list"

text \<open>\<^verbatim>\<open>operator==\<close>: the loop over the 32 bytes of the digests.\<close>

definition commitment_eq :: "RegularCommitment \<Rightarrow> RegularCommitment \<Rightarrow> bool" where
  "commitment_eq x y = same_prefix COMMITMENT_SIZE (digest x) (digest y)"

definition rc_sha256 :: "cryptopp \<Rightarrow> int \<Rightarrow> RegularCommitment" where
  "rc_sha256 cp x =
     (let len = min_encoded_size cp x; m = encode_bytes cp x len in \<lparr>digest = sha256_digest cp m\<rparr>)"

definition regular_commit :: "cryptopp \<Rightarrow> int \<Rightarrow> RegularCommitment" where
  "regular_commit cp x = rc_sha256 cp x"

definition regular_verify :: "cryptopp \<Rightarrow> RegularCommitment \<Rightarrow> int \<Rightarrow> bool" where
  "regular_verify cp c x = commitment_eq c (rc_sha256 cp x)"

interpretation regular: recomputed_commitment "regular_commit cp" "regular_verify cp" commitment_eq
  for cp
  by unfold_locales (auto simp: regular_verify_def regular_commit_def commitment_eq_def same_prefix_iff)

text \<open>A commitment verifies for the integer it was made for.\<close>

theorem regular_commit_verifies: "regular_verify cp (regular_commit cp x) x"
  by (rule regular.commit_verifies)

text \<open>
  A commitment that verifies for two different non-negative integers is a SHA-256 collision.
\<close>

theorem regular_commit_binding:
  assumes "encoding_laws cp" "hash_laws cp" "0 \<le> x" "0 \<le> y" "x \<noteq> y"
    and "regular_verify cp c x" "regular_verify cp c y"
  shows "to_bytes cp x \<noteq> to_bytes cp y \<and>
    sha256_digest cp (to_bytes cp x) = sha256_digest cp (to_bytes cp y)"
proof -
  have "to_bytes cp x \<noteq> to_bytes cp y" using decode_to_bytes assms(1,3,4,5) by metis
  moreover have "commitment_eq (regular_commit cp x) (regular_commit cp y)"
    using assms(6,7) by (rule regular.two_openings_collide)
  then have "sha256_digest cp (to_bytes cp x) = sha256_digest cp (to_bytes cp y)"
    using same_prefix_full [OF sha256_length [OF assms(2)] sha256_length [OF assms(2)]]
    by (simp add: commitment_eq_def regular_commit_def rc_sha256_def to_bytes_def Let_def
        COMMITMENT_SIZE_def)
  ultimately show ?thesis ..
qed

theorem regular_commit_binding_witness:
  "to_bytes ref_cryptopp 1 \<noteq> to_bytes ref_cryptopp 256 \<and>
   sha256_digest ref_cryptopp (to_bytes ref_cryptopp 1) = sha256_digest ref_cryptopp (to_bytes ref_cryptopp 256)"
proof -
  have "ref_size 1 = Suc 0" "ref_size 256 = Suc (Suc 0)" "(256 :: byte) = 0"
    by (simp_all add: ref_size.simps)
  then have "ref_encode 1 (ref_size 1) = [1]" "ref_encode 256 (ref_size 256) = [1, 0]"
    by simp_all
  then have "rc_sha256 ref_cryptopp 1 = rc_sha256 ref_cryptopp 256"
    by (simp add: rc_sha256_def ref_simps Let_def numeral_eq_Suc)
  then have "regular_verify ref_cryptopp (regular_commit ref_cryptopp 1) 1"
    "regular_verify ref_cryptopp (regular_commit ref_cryptopp 1) 256"
    by (simp_all add: regular_verify_def regular_commit_def commitment_eq_def same_prefix_iff)
  then show ?thesis by (intro regular_commit_binding) (simp_all add: ref_laws)
qed

end
