(* ===== verification/Sha_Commitment.thy ===== *)
theory Sha_Commitment
  imports Protocol Common
begin

text \<open>
  sha_commitment/sha_commitment.h and sha_commitment.cpp: a commitment to a byte vector is the
  SHA-256 digest of the vector followed by a random 32-byte seed; opening it reveals both, and the
  receiver recomputes the digest. The seed drawn by \<open>exec\<close> is an argument of the operation.
\<close>

section \<open>The two parties\<close>

definition sha_N :: nat where
  "sha_N = 32"

definition COM_SIZE :: nat where
  "COM_SIZE = 256 div 8"

record sha_sender =
  snd_m :: "byte list"
  snd_seed :: "byte list"
  snd_com :: "byte list"

record sha_receiver =
  rcv_open_verified :: bool
  rcv_m :: "byte list"
  rcv_seed :: "byte list"
  rcv_com :: "byte list"

text \<open>\<^verbatim>\<open>!b\<close> is 1 for a zero byte and 0 for any other; an empty message has no first byte.\<close>

definition sender_cheat :: "(sha_sender, unit) comp" where
  "sender_cheat = (\<lambda>s.
     case snd_m s of [] \<Rightarrow> (Inl Undefined, s)
     | b # bs \<Rightarrow> (Inr (), s\<lparr>snd_m := (if b = 0 then 1 else 0) # bs\<rparr>))"

definition setOpenVerified :: "bool \<Rightarrow> sha_receiver \<Rightarrow> sha_receiver" where
  "setOpenVerified val r = r\<lparr>rcv_open_verified := val\<rparr>"

definition getOpenVerified :: "sha_receiver \<Rightarrow> bool" where
  "getOpenVerified r = rcv_open_verified r"

section \<open>The operations\<close>

definition compute_sha :: "cryptopp \<Rightarrow> byte list \<Rightarrow> byte list \<Rightarrow> byte list" where
  "compute_sha cp msg seed =
     (let vseed = take sha_N seed; tmp = concatenate msg vseed in sha256_digest cp tmp)"

definition sha_init :: "(sha_sender, sha_receiver) step" where
  "sha_init = ret ()"

definition sha_exec :: "cryptopp \<Rightarrow> byte list \<Rightarrow> (sha_sender, sha_receiver) step" where
  "sha_exec cp block = (\<lambda>(s, r).
     let s = s\<lparr>snd_seed := block\<rparr>;
         s = s\<lparr>snd_com := compute_sha cp (snd_m s) (snd_seed s)\<rparr>;
         r = r\<lparr>rcv_com := take COM_SIZE (snd_com s)\<rparr>
     in (Inr (), s, r))"

definition sha_open :: "cryptopp \<Rightarrow> (sha_sender, sha_receiver) step" where
  "sha_open cp = (\<lambda>(s, r).
     let r = r\<lparr>rcv_m := snd_m s\<rparr>;
         r = r\<lparr>rcv_seed := take sha_N (snd_seed s)\<rparr>;
         com = compute_sha cp (rcv_m r) (rcv_seed r);
         r = setOpenVerified (same_prefix COM_SIZE (rcv_com r) com) r
     in if \<not> getOpenVerified r
        then (Inl (ProtocolException ''sha commitment open failed''), s, r)
        else (Inr (), s, r))"

section \<open>Contracts\<close>

text \<open>What a verified opening says: the digest received before is the digest of what was revealed.\<close>

definition sha_checked :: "cryptopp \<Rightarrow> sha_receiver \<Rightarrow> bool" where
  "sha_checked cp r \<longleftrightarrow> same_prefix COM_SIZE (rcv_com r) (compute_sha cp (rcv_m r) (rcv_seed r))"

text \<open>What an honest execution leaves behind: the receiver holds the digest of the sender's data.\<close>

definition sha_ready :: "cryptopp \<Rightarrow> sha_sender \<Rightarrow> sha_receiver \<Rightarrow> bool" where
  "sha_ready cp s r \<longleftrightarrow> same_prefix COM_SIZE (rcv_com r) (compute_sha cp (snd_m s) (snd_seed s))"

lemma compute_sha_take [simp]: "compute_sha cp m (take sha_N seed) = compute_sha cp m seed"
  by (simp add: compute_sha_def)

lemma sha_open_eq:
  "sha_open cp (s, r) =
     (let r' = r\<lparr>rcv_m := snd_m s, rcv_seed := take sha_N (snd_seed s),
                 rcv_open_verified := same_prefix COM_SIZE (rcv_com r) (compute_sha cp (snd_m s) (snd_seed s))\<rparr>
      in if sha_ready cp s r then (Inr (), s, r')
         else (Inl (ProtocolException ''sha commitment open failed''), s, r'))"
  by (simp add: sha_open_def sha_ready_def setOpenVerified_def getOpenVerified_def Let_def)

lemma sha_exec_ready: "sha_exec cp block (s, r) = (Inr (), s', r') \<Longrightarrow> sha_ready cp s' r'"
  by (auto simp: sha_exec_def sha_ready_def Let_def same_prefix_iff)

interpretation sha: sound_opening "sha_open cp" getOpenVerified "sha_checked cp" for cp
  by unfold_locales
    (auto simp: sha_open_eq sha_checked_def sha_ready_def Let_def split: if_splits)

interpretation sha_honest: honest_protocol
  "\<lambda>i. sha_init" "\<lambda>i. sha_exec cp (seed i)" "sha_open cp" getOpenVerified
  "\<lambda>i s r. True" "\<lambda>i s r. sha_ready cp s r" for cp seed
proof unfold_locales
  fix i s r
  show "\<exists>s' r'. seq sha_init (sha_exec cp (seed i)) (s, r) = (Inr (), s', r') \<and> sha_ready cp s' r'"
    by (simp add: seq_def and_then_def sha_init_def sha_exec_def sha_ready_def Let_def same_prefix_iff)
  show "\<exists>s' r'. sha_open cp (s, r) = (Inr (), s', r') \<and> getOpenVerified r'" if "sha_ready cp s r"
    using that by (simp add: sha_open_eq Let_def getOpenVerified_def sha_ready_def)
qed

interpretation sha_scheme: recomputed_commitment
  "\<lambda>(m, seed). compute_sha cp m seed" "\<lambda>c (m, seed). same_prefix COM_SIZE c (compute_sha cp m seed)"
  "same_prefix COM_SIZE" for cp
  by unfold_locales (auto simp: same_prefix_iff)


section \<open>Properties\<close>

lemma sha_ready_collision:
  assumes "hash_laws cp" "sha_ready cp s r" "sha_ready cp s' r"
  shows "compute_sha cp (snd_m s) (snd_seed s) = compute_sha cp (snd_m s') (snd_seed s')"
proof -
  have "same_prefix COM_SIZE (compute_sha cp (snd_m s) (snd_seed s)) (compute_sha cp (snd_m s') (snd_seed s'))"
    using assms(2,3) by (simp add: sha_ready_def same_prefix_iff)
  then show ?thesis using assms(1)
    by (simp add: same_prefix_full compute_sha_def hash_laws_def COM_SIZE_def Let_def)
qed

text \<open>
  The whole behaviour of \<open>open\<close>. The receiver always takes over what the sender reveals, its
  flag says whether the digest received earlier is the digest of it, and an exception is raised
  exactly when the flag is false.
\<close>

theorem sha_open_behaviour:
  "\<exists>res r'. sha_open cp (s, r) = (res, s, r') \<and>
     rcv_m r' = snd_m s \<and> rcv_seed r' = take sha_N (snd_seed s) \<and> rcv_com r' = rcv_com r \<and>
     (getOpenVerified r' \<longleftrightarrow> same_prefix COM_SIZE (rcv_com r) (compute_sha cp (snd_m s) (snd_seed s))) \<and>
     res = (if getOpenVerified r' then Inr ()
            else Inl (ProtocolException ''sha commitment open failed''))"
  by (auto simp: sha_open_eq Let_def sha_ready_def getOpenVerified_def)

text \<open>After an honest commitment, opening succeeds and gives the receiver the message.\<close>

theorem sha_commitment_complete:
  assumes "seq sha_init (sha_exec cp block) (s, r) = (Inr (), s1, r1)"
  shows "\<exists>r2. sha_open cp (s1, r1) = (Inr (), s1, r2) \<and> getOpenVerified r2 \<and> rcv_m r2 = snd_m s"
proof -
  have e: "sha_exec cp block (s, r) = (Inr (), s1, r1)"
    using assms by (simp add: seq_Inr sha_init_def)
  then have "snd_m s1 = snd_m s" by (auto simp: sha_exec_def Let_def)
  with sha_exec_ready [OF e] show ?thesis
    by (auto simp: sha_open_eq Let_def getOpenVerified_def sha_ready_def)
qed

theorem sha_commitment_complete_witness:
  "\<exists>s1 r1 r2. seq sha_init (sha_exec ref_cryptopp [7])
       (\<lparr>snd_m = [1, 2], snd_seed = [], snd_com = []\<rparr>,
        \<lparr>rcv_open_verified = False, rcv_m = [], rcv_seed = [], rcv_com = []\<rparr>) = (Inr (), s1, r1) \<and>
     sha_open ref_cryptopp (s1, r1) = (Inr (), s1, r2) \<and> getOpenVerified r2 \<and> rcv_m r2 = [1, 2]"
proof -
  let ?s = "\<lparr>snd_m = [1, 2], snd_seed = [], snd_com = []\<rparr>"
  let ?r = "\<lparr>rcv_open_verified = False, rcv_m = [], rcv_seed = [], rcv_com = []\<rparr>"
  obtain s1 r1 where e: "seq sha_init (sha_exec ref_cryptopp [7]) (?s, ?r) = (Inr (), s1, r1)"
    by (simp add: seq_def and_then_def sha_init_def sha_exec_def Let_def)
  show ?thesis using e sha_commitment_complete [OF e] by auto
qed

text \<open>
  C22: a sender that changes its message or its seed after the commitment and still gets the
  receiver to accept has found a SHA-256 collision.
\<close>

theorem sha_commitment_binding:
  assumes "hash_laws cp" "length block = sha_N"
    and "sha_exec cp block (s, r) = (Inr (), s1, r1)"
    and "snd_m s2 \<noteq> snd_m s1 \<or> snd_seed s2 \<noteq> snd_seed s1" "length (snd_seed s2) = sha_N"
    and "sha_open cp (s2, r1) = (Inr (), s3, r3)"
  shows "snd_m s2 @ snd_seed s2 \<noteq> snd_m s1 @ snd_seed s1 \<and>
    sha256_digest cp (snd_m s2 @ snd_seed s2) = sha256_digest cp (snd_m s1 @ snd_seed s1)"
proof -
  have len: "length (snd_seed s1) = sha_N" using assms(2,3) by (auto simp: sha_exec_def Let_def)
  then have "snd_m s2 @ snd_seed s2 \<noteq> snd_m s1 @ snd_seed s1"
    using assms(4,5) by (auto simp: append_eq_same_suffix_length)
  moreover have "sha_ready cp s2 r1" using assms(6) by (auto simp: sha_open_eq Let_def split: if_splits)
  from sha_ready_collision [OF assms(1) this sha_exec_ready [OF assms(3)]]
  have "sha256_digest cp (snd_m s2 @ snd_seed s2) = sha256_digest cp (snd_m s1 @ snd_seed s1)"
    using len assms(5) by (simp add: compute_sha_def Let_def)
  ultimately show ?thesis ..
qed

theorem sha_commitment_binding_witness:
  "sha256_digest ref_cryptopp (replicate 32 5 @ replicate 32 1) =
   sha256_digest ref_cryptopp (replicate 32 5 @ replicate 32 0)"
proof -
  let ?s = "\<lparr>snd_m = replicate 32 (5 :: byte), snd_seed = [], snd_com = []\<rparr>"
  let ?r = "\<lparr>rcv_open_verified = False, rcv_m = [], rcv_seed = [], rcv_com = []\<rparr>"
  let ?s2 = "\<lparr>snd_m = replicate 32 (5 :: byte), snd_seed = replicate 32 1, snd_com = []\<rparr>"
  obtain s1 r1 where e: "sha_exec ref_cryptopp (replicate 32 0) (?s, ?r) = (Inr (), s1, r1)"
    "snd_m s1 = replicate 32 5" "snd_seed s1 = replicate 32 0"
    "rcv_com r1 = replicate 32 5"
    by (simp add: sha_exec_def compute_sha_def ref_cryptopp_def Let_def sha_N_def COM_SIZE_def)
  have "sha_ready ref_cryptopp ?s2 r1"
    by (simp add: sha_ready_def e(4) compute_sha_def ref_cryptopp_def Let_def sha_N_def same_prefix_iff)
  then obtain r3 where o: "sha_open ref_cryptopp (?s2, r1) = (Inr (), ?s2, r3)"
    by (simp add: sha_open_eq Let_def)
  have "(replicate 32 1 :: byte list) \<noteq> replicate 32 0" by (simp add: numeral_eq_Suc)
  then show ?thesis
    using sha_commitment_binding [OF ref_laws(5) _ e(1) _ _ o] e by (simp add: sha_N_def)
qed

end
