(* ===== verification/Cut_And_Choose.thy ===== *)
theory Cut_And_Choose
  imports Protocol Sha_Commitment
begin

text \<open>
  cut_and_choose/cut_and_choose.h: the protocol is executed \<open>T\<close> times, the verifier names \<open>R\<close>
  executions, and every other execution is opened and checked.

  The template parameter \<open>P\<close> is the three operations of the protocol and the class of the second
  party its flag; \<^verbatim>\<open>cheat\<close> of the first party is a computation of its own. After the \<open>R\<close> named
  executions have been passed, the loop reads \<^verbatim>\<open>chosen_i[R]\<close>, one past the end of the vector: what
  the program finds there is the parameter \<open>past_end\<close>, any function at all.
\<close>

section \<open>The two parties\<close>

record 'a cc_prover =
  pv_v :: "'a list"

record 'b cc_verifier =
  vf_v :: "'b list"
  vf_i :: "int list"
  vf_res :: bool

definition getI :: "'b cc_verifier \<Rightarrow> exn + int list" where
  "getI v = (if length (vf_i v) = 0 then Inl (ProtocolException ''i is not set'') else Inr (vf_i v))"

section \<open>The template\<close>

text \<open>The operations of the protocol on the elements of the two vectors.\<close>

definition on_parties ::
    "('a list \<times> 'b list, 'c) comp \<Rightarrow> ('a cc_prover \<times> 'b cc_verifier, 'c) comp" where
  "on_parties f = (\<lambda>(p, v). case f (pv_v p, vf_v v) of
     (res, as, bs) \<Rightarrow> (res, p\<lparr>pv_v := as\<rparr>, v\<lparr>vf_v := bs\<rparr>))"

definition run_all ::
    "(nat \<Rightarrow> ('a, 'b) step) \<Rightarrow> (nat \<Rightarrow> ('a, 'b) step) \<Rightarrow> nat \<Rightarrow> ('a list \<times> 'b list, unit) comp" where
  "run_all init exec T =
     for_each [0..<T] (\<lambda>i. seq (at_index i (init i)) (at_index i (exec i)))"

definition cheat_at ::
    "('a, unit) comp \<Rightarrow> int \<Rightarrow> ('a list \<times> 'b list, unit) comp" where
  "cheat_at cheat_op cheat = (\<lambda>(as, bs).
     if 0 \<le> cheat \<and> nat cheat < length as
     then (case cheat_op (as ! nat cheat) of (res, a) \<Rightarrow> (res, as[nat cheat := a], bs))
     else (Inl Undefined, as, bs))"

text \<open>The size test, the sort and the loop that looks for an index out of range or repeated.\<close>

definition check_indices :: "nat \<Rightarrow> nat \<Rightarrow> int list \<Rightarrow> exn + int list" where
  "check_indices T R chosen =
     (if length chosen \<noteq> R then Inl (ProtocolException ''Wrong set of indices'')
      else
        let chosen_i = sort chosen
        in if list_all (\<lambda>ix. \<not> (chosen_i ! ix < 0 \<or> chosen_i ! ix \<ge> int T) \<and>
                              \<not> (ix > 0 \<and> chosen_i ! ix = chosen_i ! (ix - 1))) [0..<R]
           then Inr chosen_i
           else Inl (ProtocolException ''Wrong set of indices''))"

definition read_chosen :: "int list \<Rightarrow> (nat \<Rightarrow> int) \<Rightarrow> nat \<Rightarrow> int" where
  "read_chosen chosen_i past_end ix = (if ix < length chosen_i then chosen_i ! ix else past_end ix)"

text \<open>
  The opening loop over the remaining executions, with the position \<open>ix\<close> in the sorted vector. The
  result is the final \<^verbatim>\<open>v->res\<close> and \<open>ix\<close>; \<open>False\<close> is the early return.
\<close>

fun open_loop ::
    "('a, 'b) step \<Rightarrow> ('b \<Rightarrow> bool) \<Rightarrow> int list \<Rightarrow> (nat \<Rightarrow> int) \<Rightarrow> nat list \<Rightarrow> nat \<Rightarrow>
     ('a list \<times> 'b list, bool \<times> nat) comp" where
  "open_loop reveal verified chosen_i past_end [] ix s = (Inr (True, ix), s)"
| "open_loop reveal verified chosen_i past_end (i # is) ix s =
     (if int i \<noteq> read_chosen chosen_i past_end ix
      then (case at_index i reveal s of
              (Inl e, s') \<Rightarrow> (Inl e, s')
            | (Inr _, s') \<Rightarrow>
                if \<not> verified (snd s' ! i) then (Inr (False, ix), s')
                else open_loop reveal verified chosen_i past_end is ix s')
      else open_loop reveal verified chosen_i past_end is (Suc ix) s)"

definition set_res :: "bool \<Rightarrow> ('a cc_prover \<times> 'b cc_verifier, unit) comp" where
  "set_res r = modify (\<lambda>(p, v). (p, v\<lparr>vf_res := r\<rparr>))"

definition cut_and_choose ::
    "(nat \<Rightarrow> ('a, 'b) step) \<Rightarrow> (nat \<Rightarrow> ('a, 'b) step) \<Rightarrow> ('a, 'b) step \<Rightarrow> ('b \<Rightarrow> bool) \<Rightarrow>
     ('a, unit) comp \<Rightarrow> nat \<Rightarrow> nat \<Rightarrow> (nat \<Rightarrow> int) \<Rightarrow> int \<Rightarrow>
     ('a cc_prover \<times> 'b cc_verifier, unit) comp" where
  "cut_and_choose init exec reveal verified cheat_op T R past_end cheat =
     seq (on_parties (run_all init exec T))
     (seq (if cheat \<noteq> -1 then on_parties (cheat_at cheat_op cheat) else ret ())
     (and_then (\<lambda>(p, v). (getI v, p, v)) (\<lambda>chosen.
      and_then (from_sum (check_indices T R chosen)) (\<lambda>chosen_i.
      seq (set_res True)
      (and_then (on_parties (open_loop reveal verified chosen_i past_end [0..<T] 0)) (\<lambda>(ok, ix).
       if \<not> ok then set_res False
       else if ix \<noteq> R then throw (ProtocolException ''Assert failed'') else ret ()))))))"


section \<open>The index check\<close>

lemma sorted_adjacent_distinct:
  fixes xs :: "int list"
  assumes "sorted xs" "\<And>i. 0 < i \<Longrightarrow> i < length xs \<Longrightarrow> xs ! i \<noteq> xs ! (i - 1)"
  shows "distinct xs"
proof -
  have less: "xs ! i < xs ! j" if "i < j" "j < length xs" for i j
  proof -
    have "xs ! i \<le> xs ! (j - 1)" "xs ! (j - 1) \<le> xs ! j"
      using assms(1) that by (auto intro!: sorted_nth_mono)
    then show ?thesis using assms(2) [of j] that by force
  qed
  show ?thesis unfolding distinct_conv_nth
  proof (intro allI impI)
    fix i j assume "i < length xs" "j < length xs" "i \<noteq> j"
    then show "xs ! i \<noteq> xs ! j" using less [of i j] less [of j i] by linarith
  qed
qed

definition good_indices :: "nat \<Rightarrow> nat \<Rightarrow> int list \<Rightarrow> bool" where
  "good_indices T R chosen \<longleftrightarrow> length chosen = R \<and> distinct chosen \<and> set chosen \<subseteq> {0..<int T}"

lemma check_indices_good:
  "check_indices T R chosen =
     (if good_indices T R chosen then Inr (sort chosen)
      else Inl (ProtocolException ''Wrong set of indices''))"
proof (cases "length chosen = R")
  case len: True
  let ?c = "sort chosen"
  let ?check = "list_all (\<lambda>ix. \<not> (?c ! ix < 0 \<or> ?c ! ix \<ge> int T) \<and> \<not> (ix > 0 \<and> ?c ! ix = ?c ! (ix - 1))) [0..<R]"
  have check: "?check \<longleftrightarrow> (\<forall>i<R. ?c ! i \<in> {0..<int T}) \<and> (\<forall>i<R. 0 < i \<longrightarrow> ?c ! i \<noteq> ?c ! (i - 1))"
  proof (intro iffI conjI allI impI)
    fix i assume c: ?check and i: "i < R"
    show "?c ! i \<in> {0..<int T}" using c [unfolded list_all_iff, THEN bspec, of i] i by simp
    show "?c ! i \<noteq> ?c ! (i - 1)" if "0 < i"
      using c [unfolded list_all_iff, THEN bspec, of i] i that by simp
  next
    assume r: "(\<forall>i<R. ?c ! i \<in> {0..<int T}) \<and> (\<forall>i<R. 0 < i \<longrightarrow> ?c ! i \<noteq> ?c ! (i - 1))"
    show ?check unfolding list_all_iff
    proof
      fix i assume "i \<in> set [0..<R]"
      then have "i < R" by simp
      with r have "?c ! i \<in> {0..<int T}" "0 < i \<longrightarrow> ?c ! i \<noteq> ?c ! (i - 1)" by blast+
      then show "\<not> (?c ! i < 0 \<or> ?c ! i \<ge> int T) \<and> \<not> (i > 0 \<and> ?c ! i = ?c ! (i - 1))"
        unfolding atLeastLessThan_iff by linarith
    qed
  qed
  have range: "(\<forall>i<R. ?c ! i \<in> {0..<int T}) \<longleftrightarrow> set chosen \<subseteq> {0..<int T}"
    using all_set_conv_all_nth [of ?c "\<lambda>x. x \<in> {0..<int T}"] len by (simp only: length_sort set_sort subset_iff Ball_def)
  have adj: "(\<forall>i<R. 0 < i \<longrightarrow> ?c ! i \<noteq> ?c ! (i - 1)) \<longleftrightarrow> distinct ?c"
    using sorted_adjacent_distinct [of ?c] len by (auto simp: nth_eq_iff_index_eq)
  show ?thesis using len check range adj by (auto simp: check_indices_def good_indices_def Let_def)
next
  case False
  then show ?thesis by (simp add: check_indices_def good_indices_def)
qed

section \<open>The opening loop\<close>

text \<open>What the opening of one execution leaves: nothing for a chosen one, a verified opening otherwise.\<close>

definition opened_at ::
    "('a, 'b) step \<Rightarrow> ('b \<Rightarrow> bool) \<Rightarrow> int list \<Rightarrow> nat \<Rightarrow> 'a list \<times> 'b list \<Rightarrow> 'a list \<times> 'b list \<Rightarrow> bool" where
  "opened_at reveal verified chosen i s t \<longleftrightarrow>
     (if int i \<in> set chosen then fst t ! i = fst s ! i \<and> snd t ! i = snd s ! i
      else i < length (fst s) \<and> i < length (snd s) \<and>
           reveal (fst s ! i, snd s ! i) = (Inr (), fst t ! i, snd t ! i) \<and> verified (snd t ! i))"

text \<open>The chosen positions below \<open>k\<close> are the first \<open>ix\<close> of the sorted vector.\<close>

definition passed :: "int list \<Rightarrow> nat \<Rightarrow> nat \<Rightarrow> bool" where
  "passed chosen k ix \<longleftrightarrow> ix \<le> length chosen \<and> set (take ix chosen) = {c \<in> set chosen. c < int k}"

lemma passed_start: "set chosen \<subseteq> {0..<int T} \<Longrightarrow> passed chosen 0 0"
  by (force simp: passed_def)

lemma passed_here:
  assumes "passed chosen k ix" "sorted chosen" "distinct chosen"
  shows "int k \<in> set chosen \<longleftrightarrow> ix < length chosen \<and> chosen ! ix = int k"
proof
  assume "int k \<in> set chosen"
  then obtain j where j: "j < length chosen" "chosen ! j = int k" by (metis in_set_conv_nth)
  have "\<not> j < ix" using assms(1) j nth_mem [of j "take ix chosen"] by (auto simp: passed_def)
  moreover have "\<not> ix < j"
  proof
    assume "ix < j"
    then have "chosen ! ix \<le> int k" "chosen ! ix \<noteq> int k"
      using assms(2,3) j by (auto simp: sorted_nth_mono nth_eq_iff_index_eq simp flip: j(2))
    then have "chosen ! ix \<in> set (take ix chosen)"
      using assms(1) \<open>ix < j\<close> j(1) by (auto simp: passed_def)
    then obtain i where "i < ix" "chosen ! i = chosen ! ix" using \<open>ix < j\<close> j(1)
      by (auto simp: in_set_conv_nth)
    then show False using assms(3) \<open>ix < j\<close> j(1) by (simp add: nth_eq_iff_index_eq)
  qed
  ultimately show "ix < length chosen \<and> chosen ! ix = int k" using j by (metis linorder_neqE_nat)
next
  show "ix < length chosen \<and> chosen ! ix = int k \<Longrightarrow> int k \<in> set chosen" by (metis nth_mem)
qed

lemma passed_Suc:
  assumes "passed chosen k ix" "sorted chosen" "distinct chosen"
  shows "passed chosen (Suc k) (if int k \<in> set chosen then Suc ix else ix)"
proof (cases "int k \<in> set chosen")
  case True
  then have h: "ix < length chosen" "chosen ! ix = int k" using passed_here [OF assms] by auto
  then have "set (take (Suc ix) chosen) = insert (int k) {c \<in> set chosen. c < int k}"
    using assms(1) by (simp add: take_Suc_conv_app_nth passed_def)
  also have "\<dots> = {c \<in> set chosen. c < int (Suc k)}" using True by auto
  finally show ?thesis using True h by (simp add: passed_def)
next
  case False
  then have "{c \<in> set chosen. c < int (Suc k)} = {c \<in> set chosen. c < int k}"
    by (auto simp: less_le)
  then show ?thesis using assms(1) False by (simp add: passed_def)
qed


lemma open_loop_index_mono:
  "open_loop reveal verified chosen past_end is ix s = (Inr (ok, ix'), t) \<Longrightarrow> ix \<le> ix'"
  by (induction "is" arbitrary: ix s) (force split: if_splits prod.splits sum.splits)+

text \<open>
  The loop invariant in its final form: whatever lies past the end of the vector, a loop that ends
  with \<open>ix = R\<close> and no early return has left the chosen executions alone and verified all others.
\<close>

lemma open_loop_sound:
  assumes "open_loop reveal verified chosen past_end [k..<T] ix s = (Inr (True, length chosen), t)"
    and "sorted chosen" "distinct chosen" "passed chosen k ix"
  shows "(\<forall>i<k. fst t ! i = fst s ! i \<and> snd t ! i = snd s ! i) \<and>
    (\<forall>i. k \<le> i \<and> i < T \<longrightarrow> opened_at reveal verified chosen i s t)"
  using assms
proof (induction "T - k" arbitrary: k ix s)
  case 0
  then show ?case by auto
next
  case (Suc d)
  then have k: "k < T" and d: "d = T - Suc k" by auto
  note sc = Suc.prems(2,3)
  note step = passed_Suc [OF Suc.prems(4) sc] and here = passed_here [OF Suc.prems(4) sc]
  have upt: "[k..<T] = k # [Suc k..<T]" using k by (simp add: upt_conv_Cons)
  note run = Suc.prems(1)[unfolded upt open_loop.simps]
  have split: "(\<forall>i. k \<le> i \<and> i < T \<longrightarrow> P i) \<longleftrightarrow> P k \<and> (\<forall>i. Suc k \<le> i \<and> i < T \<longrightarrow> P i)" for P
  proof (intro iffI allI impI)
    fix i assume P: "P k \<and> (\<forall>i. Suc k \<le> i \<and> i < T \<longrightarrow> P i)" and i: "k \<le> i \<and> i < T"
    show "P i" using P i by (cases "i = k") simp_all
  qed (use k in auto)
  show ?case
  proof (cases "int k = read_chosen chosen past_end ix")
    case False
    then obtain s' where s': "at_index k reveal s = (Inr (), s')" "verified (snd s' ! k)"
      and rest: "open_loop reveal verified chosen past_end [Suc k..<T] ix s' = (Inr (True, length chosen), t)"
      using run by (auto split: prod.splits sum.splits if_splits)
    have nin: "int k \<notin> set chosen" using False here by (auto simp: read_chosen_def)
    have ih: "(\<forall>i<Suc k. fst t ! i = fst s' ! i \<and> snd t ! i = snd s' ! i) \<and>
        (\<forall>i. Suc k \<le> i \<and> i < T \<longrightarrow> opened_at reveal verified chosen i s' t)"
      using Suc.hyps(1) [OF d rest sc] step nin by simp
    obtain as bs where s: "s = (as, bs)" by (cases s)
    obtain a b where ab: "k < length as" "k < length bs" "reveal (as ! k, bs ! k) = (Inr (), a, b)"
      "s' = (as[k := a], bs[k := b])" using s'(1) unfolding s by (cases s') (auto simp: at_index_Inr)
    have "opened_at reveal verified chosen k s t"
      using ab ih s'(2) nin by (auto simp: opened_at_def s)
    moreover have "opened_at reveal verified chosen i s t" if "Suc k \<le> i" "i < T" for i
    proof -
      have "opened_at reveal verified chosen i s' t" using ih that by blast
      then show ?thesis using that ab by (simp add: opened_at_def s split: if_splits)
    qed
    ultimately show ?thesis using ih ab unfolding split by (auto simp: s)
  next
    case True
    then have rest: "open_loop reveal verified chosen past_end [Suc k..<T] (Suc ix) s
        = (Inr (True, length chosen), t)" using run by simp
    then have "Suc ix \<le> length chosen" by (rule open_loop_index_mono)
    then have kin: "int k \<in> set chosen" using True here by (simp add: read_chosen_def)
    have "(\<forall>i<Suc k. fst t ! i = fst s ! i \<and> snd t ! i = snd s ! i) \<and>
        (\<forall>i. Suc k \<le> i \<and> i < T \<longrightarrow> opened_at reveal verified chosen i s t)"
      using Suc.hyps(1) [OF d rest sc] step kin by simp
    then show ?thesis unfolding split using kin by (auto simp: opened_at_def)
  qed
qed

text \<open>The loop of an honest run, when what lies past the end is not the index of an execution.\<close>

lemma open_loop_complete:
  assumes "sorted chosen" "distinct chosen" "passed chosen k ix"
    and "\<And>j. past_end j \<notin> {0..<int T}" and "T \<le> length (fst s)" "T \<le> length (snd s)"
    and "\<And>i. k \<le> i \<Longrightarrow> i < T \<Longrightarrow> int i \<notin> set chosen \<Longrightarrow>
      \<exists>a b. reveal (fst s ! i, snd s ! i) = (Inr (), a, b) \<and> verified b"
    and "set chosen \<subseteq> {0..<int T}"
  shows "\<exists>t. open_loop reveal verified chosen past_end [k..<T] ix s = (Inr (True, length chosen), t)"
  using assms(3-)
proof (induction "T - k" arbitrary: k ix s)
  case 0
  have "{c \<in> set chosen. c < int k} = set chosen" using 0(1,7) by auto
  then have "card (set (take ix chosen)) = card (set chosen)" using 0(2) by (simp add: passed_def)
  moreover have "card (set (take ix chosen)) = min (length chosen) ix"
    using assms(2) by (simp add: distinct_card)
  ultimately have "ix = length chosen" using 0(2) distinct_card [OF assms(2)] by (simp add: passed_def)
  with 0 show ?case by simp
next
  case (Suc d)
  then have k: "k < T" and d: "d = T - Suc k" by auto
  have upt: "[k..<T] = k # [Suc k..<T]" using k by (simp add: upt_conv_Cons)
  note step = passed_Suc [OF Suc.prems(1) assms(1,2)] and here = passed_here [OF Suc.prems(1) assms(1,2)]
  show ?case
  proof (cases "int k \<in> set chosen")
    case True
    then have "int k = read_chosen chosen past_end ix" using here by (simp add: read_chosen_def)
    moreover have "\<exists>t. open_loop reveal verified chosen past_end [Suc k..<T] (Suc ix) s
        = (Inr (True, length chosen), t)"
      using Suc.hyps(1) [OF d, of "Suc ix" s] step True Suc.prems(2-) by simp
    ultimately show ?thesis unfolding upt by simp
  next
    case False
    then have ne: "int k \<noteq> read_chosen chosen past_end ix"
      using here Suc.prems(2) [of ix] k by (auto simp: read_chosen_def)
    obtain as bs where s: "s = (as, bs)" by (cases s)
    obtain a b where ab: "reveal (as ! k, bs ! k) = (Inr (), a, b)" "verified b"
      using Suc.prems(5) [of k] k False s by auto
    let ?s = "(as[k := a], bs[k := b])"
    have at: "at_index k reveal s = (Inr (), ?s)"
      using ab k Suc.prems(3,4) by (simp add: at_index_def s)
    have "\<exists>t. open_loop reveal verified chosen past_end [Suc k..<T] ix ?s = (Inr (True, length chosen), t)"
      using Suc.hyps(1) [OF d, of ix ?s] step False Suc.prems(2-) s by simp
    then show ?thesis using ne at ab k Suc.prems(4) unfolding upt by (simp add: s)
  qed
qed


section \<open>The whole protocol\<close>

lemma on_parties_eq:
  "on_parties f (p, v) = (case f (pv_v p, vf_v v) of
     (res, as, bs) \<Rightarrow> (res, p\<lparr>pv_v := as\<rparr>, v\<lparr>vf_v := bs\<rparr>))"
  by (simp add: on_parties_def)

lemma run_all_partial:
  assumes "run_all init exec T s = (Inr (), t)"
  shows "length (fst t) = length (fst s) \<and> length (snd t) = length (snd s) \<and>
    (\<forall>i<T. i < length (fst s) \<and> i < length (snd s) \<and>
       seq (init i) (exec i) (fst s ! i, snd s ! i) = (Inr (), fst t ! i, snd t ! i))"
  using assms by (intro each_index_partial) (simp add: run_all_def seq_at_index)

lemma run_all_total:
  assumes "T \<le> length (fst s)" "T \<le> length (snd s)"
    and "\<And>i. i < T \<Longrightarrow> \<exists>a b. seq (init i) (exec i) (fst s ! i, snd s ! i) = (Inr (), a, b)"
  shows "\<exists>t. run_all init exec T s = (Inr (), t)"
  using each_index_total [OF assms(1,2), of "\<lambda>i. seq (init i) (exec i)"] assms(3)
  by (simp add: run_all_def seq_at_index)

lemma good_indices_sort: "good_indices T R c \<Longrightarrow> sorted (sort c) \<and> distinct (sort c) \<and>
    passed (sort c) 0 0 \<and> length (sort c) = R \<and> set (sort c) \<subseteq> {0..<int T}"
  by (simp add: good_indices_def passed_start [of "sort c" T])

lemma opened_at_sort: "opened_at reveal verified (sort c) = opened_at reveal verified c"
  by (simp add: opened_at_def fun_eq_iff)

lemma on_parties_run: "f (pv_v p, vf_v v) = (res, as, bs) \<Longrightarrow>
    on_parties f (p, v) = (res, p\<lparr>pv_v := as\<rparr>, v\<lparr>vf_v := bs\<rparr>)"
  by (simp add: on_parties_eq)

lemma cut_and_choose_raised:
  "run_all init exec T (pv_v p, vf_v v) = (Inl e, as, bs) \<Longrightarrow>
   cut_and_choose init exec reveal verified cheat_op T R past_end cheat (p, v) =
     (Inl e, p\<lparr>pv_v := as\<rparr>, v\<lparr>vf_v := bs\<rparr>)"
  by (simp add: cut_and_choose_def seq_def and_then_def on_parties_run)

lemma cut_and_choose_executed:
  assumes run: "run_all init exec T (pv_v p, vf_v v) = (Inr (), as, bs)"
  defines "v1 \<equiv> v\<lparr>vf_v := bs\<rparr>" and "p1 \<equiv> p\<lparr>pv_v := as\<rparr>"
  shows "cut_and_choose init exec reveal verified cheat_op T R past_end (-1) (p, v) =
    (if vf_i v = [] then (Inl (ProtocolException ''i is not set''), p1, v1)
     else if \<not> good_indices T R (vf_i v)
     then (Inl (ProtocolException ''Wrong set of indices''), p1, v1)
     else and_then (on_parties (open_loop reveal verified (sort (vf_i v)) past_end [0..<T] 0))
       (\<lambda>(ok, ix). if \<not> ok then set_res False
          else if ix \<noteq> R then throw (ProtocolException ''Assert failed'') else ret ())
       (p1, v1\<lparr>vf_res := True\<rparr>))"
proof -
  have r: "on_parties (run_all init exec T) (p, v) = (Inr (), p1, v1)"
    unfolding p1_def v1_def using run by (rule on_parties_run)
  have i: "vf_i v1 = vf_i v" by (simp add: v1_def)
  have s: "set_res True (p1, v1) = (Inr (), p1, v1\<lparr>vf_res := True\<rparr>)" by (simp add: set_res_def)
  show ?thesis
    by (simp add: cut_and_choose_def seq_def and_then_def r s getI_def check_indices_good i)
qed

lemma cut_and_choose_result:
  assumes "cut_and_choose init exec reveal verified cheat_op T R past_end (-1) (p, v) = (Inr (), p', v')"
  shows "good_indices T R (vf_i v) \<and> (\<exists>s. run_all init exec T (pv_v p, vf_v v) = (Inr (), s) \<and>
    (vf_res v' \<longrightarrow> (\<forall>i<T. opened_at reveal verified (vf_i v) i s (pv_v p', vf_v v'))))"
proof -
  obtain res as bs where run: "run_all init exec T (pv_v p, vf_v v) = (res, as, bs)" by (metis prod_cases3)
  moreover from this assms obtain u where "res = Inr u" by (cases res) (auto simp: cut_and_choose_raised)
  ultimately have run: "run_all init exec T (pv_v p, vf_v v) = (Inr (), as, bs)" by simp
  let ?c = "sort (vf_i v)" and ?p = "p\<lparr>pv_v := as\<rparr>" and ?v = "v\<lparr>vf_v := bs, vf_res := True\<rparr>"
  note ex = assms [unfolded cut_and_choose_executed [OF run]]
  have good: "good_indices T R (vf_i v)" using ex by (auto split: if_splits)
  obtain ok ix as' bs' where loop: "open_loop reveal verified ?c past_end [0..<T] 0 (as, bs) = (Inr (ok, ix), as', bs')"
    and fin: "p' = p\<lparr>pv_v := as'\<rparr>" "vf_v v' = bs'" "vf_res v' = ok" "ok \<Longrightarrow> ix = R"
  proof -
    obtain r as' bs' where loop: "open_loop reveal verified ?c past_end [0..<T] 0 (as, bs) = (r, as', bs')"
      by (metis prod_cases3)
    then have "on_parties (open_loop reveal verified ?c past_end [0..<T] 0) (?p, ?v)
        = (r, ?p\<lparr>pv_v := as'\<rparr>, ?v\<lparr>vf_v := bs'\<rparr>)" by (intro on_parties_run) simp
    with ex good loop that show thesis
      by (cases r) (auto simp: and_then_def set_res_def split: if_splits)
  qed
  have "opened_at reveal verified (vf_i v) i (as, bs) (pv_v p', vf_v v')" if "vf_res v'" "i < T" for i
  proof -
    have "open_loop reveal verified ?c past_end [0..<T] 0 (as, bs) = (Inr (True, length ?c), as', bs')"
      using loop fin that(1) good_indices_sort [OF good] by simp
    from open_loop_sound [OF this] show ?thesis
      using good_indices_sort [OF good] that fin by (simp add: opened_at_sort)
  qed
  with good run show ?thesis by blast
qed


text \<open>The vectors keep their lengths, and the verifier its indices.\<close>

lemma at_index_frame:
  "at_index i f s = (r, t) \<Longrightarrow> length (fst t) = length (fst s) \<and> length (snd t) = length (snd s)"
  by (auto simp: at_index_def split: prod.splits if_splits)

lemma open_loop_frame:
  "open_loop reveal verified chosen past_end is ix s = (r, t) \<Longrightarrow>
     length (fst t) = length (fst s) \<and> length (snd t) = length (snd s)"
proof (induction "is" arbitrary: ix s)
  case Nil
  then show ?case by simp
next
  case (Cons i "is")
  obtain r1 s1 where 1: "at_index i reveal s = (r1, s1)" by (metis surj_pair)
  show ?case
    using Cons.prems Cons.IH [of ix s1] Cons.IH [of "Suc ix" s] at_index_frame [OF 1] 1
    by (auto split: if_splits sum.splits)
qed

lemma cut_and_choose_frame:
  assumes "cut_and_choose init exec reveal verified cheat_op T R past_end (-1) (p, v) = (Inr (), p', v')"
  shows "vf_i v' = vf_i v \<and> length (pv_v p') = length (pv_v p) \<and> length (vf_v v') = length (vf_v v)"
proof -
  obtain res as bs where run: "run_all init exec T (pv_v p, vf_v v) = (res, as, bs)" by (metis prod_cases3)
  moreover from this assms obtain u where "res = Inr u" by (cases res) (auto simp: cut_and_choose_raised)
  ultimately have run: "run_all init exec T (pv_v p, vf_v v) = (Inr (), as, bs)" by simp
  obtain r as' bs' where loop: "open_loop reveal verified (sort (vf_i v)) past_end [0..<T] 0 (as, bs) = (r, as', bs')"
    by (metis prod_cases3)
  let ?v = "v\<lparr>vf_v := bs, vf_res := True\<rparr>"
  have "on_parties (open_loop reveal verified (sort (vf_i v)) past_end [0..<T] 0) (p\<lparr>pv_v := as\<rparr>, ?v)
      = (r, p\<lparr>pv_v := as, pv_v := as'\<rparr>, ?v\<lparr>vf_v := bs'\<rparr>)"
    using loop by (intro on_parties_run) simp
  then show ?thesis
    using assms run_all_partial [OF run] open_loop_frame [OF loop]
    by (cases r) (auto simp: cut_and_choose_executed [OF run] and_then_def set_res_def split: if_splits)
qed

section \<open>What the contracts of the interface give\<close>

context sound_opening
begin

lemma cut_and_choose_checked:
  assumes "cut_and_choose init exec reveal verified cheat_op T R past_end (-1) (p, v) = (Inr (), p', v')"
    and "vf_res v'" "i < T" "int i \<notin> set (vf_i v)"
  shows "checked (vf_v v' ! i)"
proof -
  obtain s where "opened_at reveal verified (vf_i v) i s (pv_v p', vf_v v')"
    using cut_and_choose_result [OF assms(1)] assms(2,3) by blast
  then have "reveal (fst s ! i, snd s ! i) = (Inr (), pv_v p' ! i, vf_v v' ! i)" "verified (vf_v v' ! i)"
    using assms(4) by (simp_all add: opened_at_def)
  then show ?thesis by (rule reveal_checked)
qed

end

context honest_protocol
begin

lemma cut_and_choose_accepts:
  assumes good: "good_indices T R (vf_i v)" "vf_i v \<noteq> []"
    and len: "T \<le> length (pv_v p)" "T \<le> length (vf_v v)"
    and fresh: "\<And>i. i < T \<Longrightarrow> fresh i (pv_v p ! i) (vf_v v ! i)"
    and past: "\<And>j. past_end j \<notin> {0..<int T}"
  shows "\<exists>p' v'. cut_and_choose init exec reveal verified cheat_op T R past_end (-1) (p, v)
    = (Inr (), p', v') \<and> vf_res v'"
proof -
  have "\<exists>t. run_all init exec T (pv_v p, vf_v v) = (Inr (), t)"
    by (rule run_all_total) (use len fresh run_ready in force)+
  then obtain as bs where run: "run_all init exec T (pv_v p, vf_v v) = (Inr (), as, bs)" by auto
  note rp = run_all_partial [OF run, simplified]
  have ready: "ready i (as ! i) (bs ! i)" if "i < T" for i
    using rp fresh [OF that] run_ready that by fastforce
  let ?c = "sort (vf_i v)"
  obtain as' bs' where "open_loop reveal verified ?c past_end [0..<T] 0 (as, bs) = (Inr (True, R), as', bs')"
    using open_loop_complete [of ?c 0 0 past_end T "(as, bs)" reveal verified]
      good_indices_sort [OF good(1)] past rp len ready open_verified by fastforce
  then show ?thesis
    using good by (simp add: cut_and_choose_executed [OF run] and_then_def on_parties_eq set_res_def)
qed

end

section \<open>Properties\<close>

text \<open>A run for the witnesses: two hash commitments, the first of them chosen.\<close>

definition sample_prover :: "sha_sender cc_prover" where
  "sample_prover = \<lparr>pv_v = replicate 2 \<lparr>snd_m = [1, 2], snd_seed = [], snd_com = []\<rparr>\<rparr>"

definition sample_verifier :: "int list \<Rightarrow> sha_receiver cc_verifier" where
  "sample_verifier chosen = \<lparr>vf_v = replicate 2 \<lparr>rcv_open_verified = False, rcv_m = [],
     rcv_seed = [], rcv_com = []\<rparr>, vf_i = chosen, vf_res = False\<rparr>"

lemma sample_run:
  "\<exists>p' v'. cut_and_choose (\<lambda>i. sha_init) (\<lambda>i. sha_exec ref_cryptopp [7]) (sha_open ref_cryptopp)
     getOpenVerified sender_cheat 2 1 (\<lambda>j. 2) (-1) (sample_prover, sample_verifier [0])
     = (Inr (), p', v') \<and> vf_res v'"
  by (rule sha_honest.cut_and_choose_accepts)
    (simp_all add: sample_prover_def sample_verifier_def good_indices_def)

text \<open>
  C15: acceptance means what it should. If a run returns with \<open>res\<close> true, the verifier's indices
  are \<open>R\<close> different executions, every other execution was opened and verified, and the chosen ones
  were left as the execution made them. This holds whatever lies past the end of the sorted vector.
\<close>

theorem cut_and_choose_acceptance:
  assumes "cut_and_choose init exec reveal verified cheat_op T R past_end (-1) (p, v) = (Inr (), p', v')"
    and "vf_res v'"
  shows "length (vf_i v) = R \<and> distinct (vf_i v) \<and> set (vf_i v) \<subseteq> {0..<int T} \<and>
    (\<exists>as bs. run_all init exec T (pv_v p, vf_v v) = (Inr (), as, bs) \<and>
      (\<forall>i<T. if int i \<in> set (vf_i v) then pv_v p' ! i = as ! i \<and> vf_v v' ! i = bs ! i
             else reveal (as ! i, bs ! i) = (Inr (), pv_v p' ! i, vf_v v' ! i) \<and> verified (vf_v v' ! i)))"
proof -
  obtain as bs where run: "run_all init exec T (pv_v p, vf_v v) = (Inr (), as, bs)"
    and o: "\<And>i. i < T \<Longrightarrow> opened_at reveal verified (vf_i v) i (as, bs) (pv_v p', vf_v v')"
    using cut_and_choose_result [OF assms(1)] assms(2) by auto
  have "if int i \<in> set (vf_i v) then pv_v p' ! i = as ! i \<and> vf_v v' ! i = bs ! i
      else reveal (as ! i, bs ! i) = (Inr (), pv_v p' ! i, vf_v v' ! i) \<and> verified (vf_v v' ! i)"
    if "i < T" for i
    using o [OF that] by (simp add: opened_at_def split: if_splits)
  then show ?thesis
    using cut_and_choose_result [OF assms(1)] run by (simp add: good_indices_def)
qed

theorem cut_and_choose_acceptance_witness:
  "\<exists>p' v'. cut_and_choose (\<lambda>i. sha_init) (\<lambda>i. sha_exec ref_cryptopp [7]) (sha_open ref_cryptopp)
     getOpenVerified sender_cheat 2 1 (\<lambda>j. 2) (-1) (sample_prover, sample_verifier [0])
     = (Inr (), p', v') \<and> vf_res v' \<and> getOpenVerified (vf_v v' ! 1)"
proof -
  obtain p' v' where run: "cut_and_choose (\<lambda>i. sha_init) (\<lambda>i. sha_exec ref_cryptopp [7])
      (sha_open ref_cryptopp) getOpenVerified sender_cheat 2 1 (\<lambda>j. 2) (-1)
      (sample_prover, sample_verifier [0]) = (Inr (), p', v')" "vf_res v'"
    using sample_run by blast
  have "getOpenVerified (vf_v v' ! 1)"
    using cut_and_choose_acceptance [OF run] by (auto simp: sample_verifier_def)
  with run show ?thesis by blast
qed

text \<open>
  A set of indices that is not \<open>R\<close> different executions is refused before anything is opened:
  the parties are as the executions left them.
\<close>

theorem cut_and_choose_refuses_indices:
  assumes "run_all init exec T (pv_v p, vf_v v) = (Inr (), as, bs)"
    and "vf_i v \<noteq> []" "\<not> good_indices T R (vf_i v)"
  shows "cut_and_choose init exec reveal verified cheat_op T R past_end (-1) (p, v) =
    (Inl (ProtocolException ''Wrong set of indices''), p\<lparr>pv_v := as\<rparr>, v\<lparr>vf_v := bs\<rparr>)"
  using assms(2,3) by (simp add: cut_and_choose_executed [OF assms(1)])

theorem cut_and_choose_refuses_indices_witness:
  "fst (cut_and_choose (\<lambda>i. sha_init) (\<lambda>i. sha_exec ref_cryptopp [7]) (sha_open ref_cryptopp)
     getOpenVerified sender_cheat 2 2 (\<lambda>j. 2) (-1) (sample_prover, sample_verifier [1, 1]))
   = Inl (ProtocolException ''Wrong set of indices'')"
proof -
  have "\<exists>t. run_all (\<lambda>i. sha_init) (\<lambda>i. sha_exec ref_cryptopp [7]) 2
      (pv_v sample_prover, vf_v (sample_verifier [1, 1])) = (Inr (), t)"
    by (rule run_all_total)
      (simp_all add: sample_prover_def sample_verifier_def seq_def and_then_def sha_init_def sha_exec_def Let_def)
  then obtain as bs where "run_all (\<lambda>i. sha_init) (\<lambda>i. sha_exec ref_cryptopp [7]) 2
      (pv_v sample_prover, vf_v (sample_verifier [1, 1])) = (Inr (), as, bs)" by auto
  from cut_and_choose_refuses_indices [OF this] show ?thesis
    by (simp add: sample_verifier_def good_indices_def)
qed

text \<open>
  With hash commitments, acceptance means that every execution that was not chosen has a
  commitment to what the sender revealed, for any prover at all.
\<close>

theorem cut_and_choose_sha_sound:
  assumes "cut_and_choose init exec (sha_open cp) getOpenVerified cheat_op T R past_end (-1) (p, v)
      = (Inr (), p', v')"
    and "vf_res v'" "i < T" "int i \<notin> set (vf_i v)"
  shows "same_prefix COM_SIZE (rcv_com (vf_v v' ! i))
    (compute_sha cp (rcv_m (vf_v v' ! i)) (rcv_seed (vf_v v' ! i)))"
  using sha.cut_and_choose_checked [OF assms] by (simp add: sha_checked_def)

theorem cut_and_choose_sha_sound_witness:
  "\<exists>p' v'. cut_and_choose (\<lambda>i. sha_init) (\<lambda>i. sha_exec ref_cryptopp [7]) (sha_open ref_cryptopp)
     getOpenVerified sender_cheat 2 1 (\<lambda>j. 2) (-1) (sample_prover, sample_verifier [0])
     = (Inr (), p', v') \<and>
   same_prefix COM_SIZE (rcv_com (vf_v v' ! 1))
     (compute_sha ref_cryptopp (rcv_m (vf_v v' ! 1)) (rcv_seed (vf_v v' ! 1)))"
proof -
  obtain p' v' where run: "cut_and_choose (\<lambda>i. sha_init) (\<lambda>i. sha_exec ref_cryptopp [7])
      (sha_open ref_cryptopp) getOpenVerified sender_cheat 2 1 (\<lambda>j. 2) (-1)
      (sample_prover, sample_verifier [0]) = (Inr (), p', v')" "vf_res v'"
    using sample_run by blast
  show ?thesis using cut_and_choose_sha_sound [OF run, of 1] run(1) by (auto simp: sample_verifier_def)
qed

text \<open>Honest senders are accepted, when the read past the end gives no execution's index.\<close>

theorem cut_and_choose_sha_complete:
  assumes "good_indices T R (vf_i v)" "vf_i v \<noteq> []"
    and "T \<le> length (pv_v p)" "T \<le> length (vf_v v)"
    and "\<And>j. past_end j \<notin> {0..<int T}"
  shows "\<exists>p' v'. cut_and_choose (\<lambda>i. sha_init) (\<lambda>i. sha_exec cp (seed i)) (sha_open cp) getOpenVerified
      cheat_op T R past_end (-1) (p, v) = (Inr (), p', v') \<and> vf_res v'"
  using assms by (intro sha_honest.cut_and_choose_accepts) auto

theorem cut_and_choose_sha_complete_witness:
  "\<exists>p' v'. cut_and_choose (\<lambda>i. sha_init) (\<lambda>i. sha_exec ref_cryptopp [7]) (sha_open ref_cryptopp)
     getOpenVerified sender_cheat 2 1 (\<lambda>j. -1) (-1) (sample_prover, sample_verifier [1])
     = (Inr (), p', v') \<and> vf_res v'"
  by (rule cut_and_choose_sha_complete)
    (simp_all add: sample_prover_def sample_verifier_def good_indices_def)

text \<open>
  C21: the read past the end matters. Two honest executions of which the first is chosen: when the
  memory after the vector holds 1, the second execution is skipped and the run ends in an exception.
\<close>

theorem cut_and_choose_past_end_failure:
  "fst (cut_and_choose (\<lambda>i. sha_init) (\<lambda>i. sha_exec cp (seed i)) (sha_open cp) getOpenVerified
      cheat_op 2 1 (\<lambda>j. 1) (-1) (\<lparr>pv_v = [s1, s2]\<rparr>, \<lparr>vf_v = [r1, r2], vf_i = [0], vf_res = b\<rparr>))
    = Inl (ProtocolException ''Assert failed'')"
proof -
  have upt: "[0..<2::nat] = [0, 1]" by (simp add: upt_rec)
  obtain as bs where run: "run_all (\<lambda>i. sha_init) (\<lambda>i. sha_exec cp (seed i)) 2 ([s1, s2], [r1, r2])
      = (Inr (), as, bs)"
    by (simp add: run_all_def upt at_index_def seq_def and_then_def sha_init_def sha_exec_def Let_def)
  have "good_indices 2 1 [0::int]" by (simp add: good_indices_def)
  then show ?thesis
    using run by (simp add: cut_and_choose_executed and_then_def on_parties_eq upt read_chosen_def)
qed

end
