(* ===== verification/Bit_Utils.thy ===== *)
theory Bit_Utils
  imports Common
begin

unbundle bit_operations_syntax

text \<open>
  timed_commitment/bit_utils.h and timed_commitment/bit_utils.cpp: strings and integers as vectors
  of bits, least significant bit of each byte first. The length of the bit vector is read into a
  32-bit \<^verbatim>\<open>unsigned\<close>, so the round trips hold below \<open>2 ^ 32\<close> bits.
\<close>

section \<open>The templates\<close>

definition byte_bits :: "byte \<Rightarrow> bool list" where
  "byte_bits e = map (\<lambda>i. e AND push_bit i 1 \<noteq> 0) [0..<8]"

fun to_bits :: "byte list \<Rightarrow> bool list" where
  "to_bits [] = []"
| "to_bits (e # cont) = byte_bits e @ to_bits cont"

text \<open>
  One byte from the eight bits at position \<open>i\<close>: the inner loop of \<open>from_bits\<close>, whose accumulator is
  an \<^verbatim>\<open>unsigned char\<close>.
\<close>

definition bits_byte :: "bool list \<Rightarrow> nat \<Rightarrow> byte" where
  "bits_byte bits i =
     fold (\<lambda>bit x. if bits ! (i + bit) then x + push_bit bit 1 else x) [0..<8] 0"

function from_bits_loop :: "bool list \<Rightarrow> nat \<Rightarrow> nat \<Rightarrow> byte list" where
  "from_bits_loop bits l i = (if i < l then bits_byte bits i # from_bits_loop bits l (i + 8) else [])"
  by pat_completeness auto
termination
  by (relation "measure (\<lambda>(bits, l, i). l - i)") auto

declare from_bits_loop.simps [simp del]

definition from_bits :: "bool list \<Rightarrow> exn + byte list" where
  "from_bits bits =
     (let l = unat (word_of_nat (length bits) :: 32 word)
      in if l mod 8 \<noteq> 0 then Inl StdException else Inr (from_bits_loop bits l 0))"

section \<open>The class\<close>

definition string_to_bits :: "string \<Rightarrow> bool list" where
  "string_to_bits s = to_bits (map byte_of_char s)"

definition integer_to_bits :: "cryptopp \<Rightarrow> int \<Rightarrow> exn + bool list" where
  "integer_to_bits cp i =
     (if i < 0 then Inl StdException
      else let bytes = encode_bytes cp i (min_encoded_size cp i) in Inr (to_bits bytes))"

definition bits_to_string :: "bool list \<Rightarrow> exn + string" where
  "bits_to_string bits = sum_then (from_bits bits) (\<lambda>res. Inr (map char_of_byte res))"

definition bits_to_integer :: "cryptopp \<Rightarrow> bool list \<Rightarrow> exn + int" where
  "bits_to_integer cp bits = sum_then (from_bits bits) (\<lambda>bytes. Inr (decode_bytes cp bytes))"

section \<open>Round trips\<close>

lemma byte_bits_nth: "i < 8 \<Longrightarrow> byte_bits e ! i = bit e i"
  by (simp add: byte_bits_def and_exp_eq_0_iff_not_bit push_bit_eq_mult flip: push_bit_eq_mult)

lemma length_byte_bits [simp]: "length (byte_bits e) = 8"
  by (simp add: byte_bits_def)

lemma length_to_bits [simp]: "length (to_bits cont) = 8 * length cont"
  by (induction cont) simp_all

lemma fold_bits_take_bit:
  "fold (\<lambda>k x. if bit e k then x + push_bit k 1 else x) [0..<n] 0 = take_bit n (e :: byte)"
proof (induction n)
  case 0
  then show ?case by simp
next
  case (Suc n)
  have "take_bit n e + push_bit n 1 = take_bit n e OR push_bit n 1"
    by (rule disjunctive_add) (auto simp: bit_simps)
  also have "\<dots> = take_bit (Suc n) e" if "bit e n"
    by (rule bit_eqI) (use that in \<open>auto simp: bit_simps less_Suc_eq\<close>)
  moreover have "take_bit n e = take_bit (Suc n) e" if "\<not> bit e n"
    by (rule bit_eqI) (use that in \<open>auto simp: bit_simps less_Suc_eq\<close>)
  ultimately show ?case using Suc by auto
qed

lemma bits_byte_here:
  assumes "length pre = i"
  shows "bits_byte (pre @ byte_bits e @ post) i = e"
proof -
  have "bits_byte (pre @ byte_bits e @ post) i
      = fold (\<lambda>k x. if bit e k then x + push_bit k 1 else x) [0..<8] 0"
    unfolding bits_byte_def
    by (rule fold_cong) (use assms in \<open>auto simp: nth_append byte_bits_nth fun_eq_iff\<close>)
  then show ?thesis by (simp only: fold_bits_take_bit) (simp add: take_bit_word_eq_self)
qed

lemma from_bits_loop_to_bits:
  "length pre = i \<Longrightarrow> from_bits_loop (pre @ to_bits cont) (i + 8 * length cont) i = cont"
proof (induction cont arbitrary: pre i)
  case Nil
  then show ?case by (simp add: from_bits_loop.simps)
next
  case (Cons e cont)
  have "from_bits_loop ((pre @ byte_bits e) @ to_bits cont) ((i + 8) + 8 * length cont) (i + 8) = cont"
    by (rule Cons.IH) (simp add: Cons.prems)
  then show ?case
    using bits_byte_here [OF Cons.prems, of e "to_bits cont"]
    by (subst from_bits_loop.simps) (simp add: add.assoc)
qed

theorem from_bits_to_bits:
  assumes "8 * length cont < 2 ^ 32"
  shows "from_bits (to_bits cont) = Inr cont"
proof -
  have "unat (word_of_nat (length (to_bits cont)) :: 32 word) = 8 * length cont"
    using assms by (simp only: length_to_bits unat_of_nat) simp
  then show ?thesis
    using from_bits_loop_to_bits [of "[]" 0 cont] by (simp add: from_bits_def del: length_to_bits)
qed

lemma bits_to_integer_back:
  assumes "encoding_laws cp" "0 \<le> i" "8 * min_encoded_size cp i < 2 ^ 32" "integer_to_bits cp i = Inr bits"
  shows "bits_to_integer cp bits = Inr i"
  using assms from_bits_to_bits [of "encode_bytes cp i (min_encoded_size cp i)"]
  by (auto simp: integer_to_bits_def bits_to_integer_def Let_def lib_laws)

text \<open>A string survives the conversion to bits and back.\<close>

theorem string_bits_roundtrip:
  assumes "8 * length s < 2 ^ 32"
  shows "bits_to_string (string_to_bits s) = Inr s"
  using from_bits_to_bits [of "map byte_of_char s"] assms
  by (simp add: bits_to_string_def string_to_bits_def comp_def)

theorem string_bits_roundtrip_witness:
  "bits_to_string (string_to_bits ''hello world'') = Inr ''hello world''"
  by (rule string_bits_roundtrip) simp

text \<open>C23: a non-negative integer survives the conversion to bits and back.\<close>

theorem integer_bits_roundtrip:
  assumes "encoding_laws cp" "0 \<le> i" "8 * min_encoded_size cp i < 2 ^ 32"
  shows "sum_then (integer_to_bits cp i) (bits_to_integer cp) = Inr i"
  using assms bits_to_integer_back [OF assms] by (simp add: integer_to_bits_def Let_def)

theorem integer_bits_roundtrip_witness:
  "sum_then (integer_to_bits ref_cryptopp 70000) (bits_to_integer ref_cryptopp) = Inr 70000"
  by (rule integer_bits_roundtrip) (simp_all add: ref_laws ref_simps ref_size.simps)

text \<open>The conversions raise exactly on a negative integer and on a ragged bit vector.\<close>

theorem bit_conversion_errors:
  assumes "length bits < 2 ^ 32"
  shows "(bits_to_integer cp bits = Inl StdException \<longleftrightarrow> length bits mod 8 \<noteq> 0)
    \<and> (bits_to_string bits = Inl StdException \<longleftrightarrow> length bits mod 8 \<noteq> 0)
    \<and> (integer_to_bits cp i = Inl StdException \<longleftrightarrow> i < 0)"
proof -
  have "unat (word_of_nat (length bits) :: 32 word) = length bits"
    using assms by (simp add: unat_of_nat)
  then show ?thesis
    by (auto simp: bits_to_integer_def bits_to_string_def integer_to_bits_def from_bits_def Let_def)
qed

theorem bit_conversion_errors_witness:
  "bits_to_integer ref_cryptopp [True] = Inl StdException \<and> bits_to_string [True] = Inl StdException
    \<and> integer_to_bits ref_cryptopp (-1) = Inl StdException"
  using bit_conversion_errors [of "[True]" ref_cryptopp "-1"] by simp

end
