(* ===== verification/Timed_Commitment.thy ===== *)
theory Timed_Commitment
  imports Bit_Utils Protocol
begin

text \<open>
  timed_commitment/timed_commitment.h and timed_commitment.cpp: a commitment that the committer opens
  by revealing a prime factor of \<open>n\<close>, and that anyone opens by \<open>2 ^ K\<close> squarings modulo \<open>n\<close>.

  Random draws (the two primes, \<open>h\<close>) are arguments. The loop of \<open>force_open\<close> counts a library
  integer down to zero and is a partial function: \<open>None\<close> is a loop that does not end.
\<close>

section \<open>Fast exponentiation\<close>

function exp_loop :: "int \<Rightarrow> 32 word \<Rightarrow> int \<Rightarrow> int" where
  "exp_loop res n x =
     (if n \<noteq> 0 then exp_loop (if n mod 2 = 1 then res * x else res) (n div 2) (x * x) else res)"
  by pat_completeness auto
termination
proof (relation "measure (\<lambda>(res, n, x). unat n)")
  fix res x :: int and n :: "32 word"
  assume "n \<noteq> 0"
  then have "0 < unat n" by (simp add: unat_gt_0)
  then show "((if n mod 2 = 1 then res * x else res, n div 2, x * x), res, n, x)
      \<in> measure (\<lambda>(res, n, x). unat n)" by (simp add: unat_div)
qed simp

declare exp_loop.simps [simp del]

definition tc_exp :: "int \<Rightarrow> 32 word \<Rightarrow> int" where
  "tc_exp x n = exp_loop 1 n x"

section \<open>The parties\<close>

record tc_commitment =
  tc_K :: nat
  tc_n :: int
  tc_h :: int
  tc_S :: "bool list"
  tc_l :: "32 word"

record commiter =
  cm_p :: int
  cm_q :: int
  cm_n :: int
  cm_phi :: int
  cm_com :: tc_commitment

record tc_receiver =
  tr_com :: tc_commitment

definition gen_prime :: "int \<Rightarrow> exn + int" where
  "gen_prime res = (if res mod 4 \<noteq> 3 then Inl (SanityException ''gen prime'') else Inr res)"

text \<open>The constructor; \<open>com\<close> is not initialised by it and stays what it was.\<close>

definition new_commiter :: "tc_commitment \<Rightarrow> int \<Rightarrow> int \<Rightarrow> exn + commiter" where
  "new_commiter com0 draw_p draw_q =
     sum_then (gen_prime draw_p) (\<lambda>p.
     sum_then (gen_prime draw_q) (\<lambda>q.
       Inr \<lparr>cm_p = p, cm_q = q, cm_n = p * q, cm_phi = (p - 1) * (q - 1), cm_com = com0\<rparr>))"

definition tc_get_n :: "commiter \<Rightarrow> int" where
  "tc_get_n c = cm_n c"

section \<open>Operations\<close>

text \<open>Reduction modulo zero raises in the library; \<open>phi\<close> is zero when a factor of \<open>n\<close> is one.\<close>

definition exp_mod :: "cryptopp \<Rightarrow> int \<Rightarrow> int \<Rightarrow> int \<Rightarrow> exn + int" where
  "exp_mod cp a e c = (if c = 0 then Inl DivideByZero else Inr (a_exp_b_mod_c cp a e c))"

definition create_timed_key :: "cryptopp \<Rightarrow> int \<Rightarrow> int \<Rightarrow> int \<Rightarrow> nat \<Rightarrow> exn + int" where
  "create_timed_key cp n phi h K =
     sum_then (exp_mod cp 2 (power2 cp K) phi) (\<lambda>a. exp_mod cp h a n)"

definition prng_xor :: "cryptopp \<Rightarrow> int \<Rightarrow> bool list \<Rightarrow> bool list" where
  "prng_xor cp u m =
     (let seed = map (get_byte cp u) [0..<48];
          t = aes_ofb_block cp (take 32 seed) (take 16 (drop 32 seed)) (length m)
      in map (\<lambda>i. m ! i \<noteq> (t ! i AND 1 \<noteq> 0)) [0..<length m])"

definition tc_encode :: "cryptopp \<Rightarrow> commiter \<Rightarrow> int \<Rightarrow> bool list \<Rightarrow> bool list" where
  "tc_encode cp c u m = prng_xor cp u m"

definition commiter_commit ::
    "cryptopp \<Rightarrow> int \<Rightarrow> nat \<Rightarrow> bool list \<Rightarrow> (commiter, tc_commitment) comp" where
  "commiter_commit cp h K m = (\<lambda>c.
     if list_ex (\<lambda>b. (of_bool b :: int) \<noteq> 0 \<and> (of_bool b :: int) \<noteq> 1) m
     then (Inl (SanityException ''not binary m''), c)
     else
       (case create_timed_key cp (cm_n c) (cm_phi c) h K of
          Inl e \<Rightarrow> (Inl e, c)
        | Inr u \<Rightarrow>
            let S = tc_encode cp c u m;
                com = \<lparr>tc_K = K, tc_n = cm_n c, tc_h = h, tc_S = S, tc_l = word_of_nat (length m)\<rparr>
            in (Inr com, c\<lparr>cm_com := com\<rparr>)))"

definition commiter_open :: "commiter \<Rightarrow> int" where
  "commiter_open c = cm_p c"

definition accept_commitment :: "tc_commitment \<Rightarrow> tc_receiver \<Rightarrow> tc_receiver" where
  "accept_commitment com r = r\<lparr>tr_com := com\<rparr>"

definition tc_decode :: "cryptopp \<Rightarrow> tc_receiver \<Rightarrow> int \<Rightarrow> bool list" where
  "tc_decode cp r u = prng_xor cp u (tc_S (tr_com r))"

definition receiver_open :: "cryptopp \<Rightarrow> tc_receiver \<Rightarrow> int \<Rightarrow> exn + bool list" where
  "receiver_open cp rc p =
     (if p = 0 then Inl DivideByZero
      else
        let r = tc_n (tr_com rc) mod p; q = tc_n (tr_com rc) div p
        in if r \<noteq> 0 then Inl (TimedProtocolException ''p does not divide n'')
           else
             let phi = (p - 1) * (q - 1)
             in sum_then (create_timed_key cp (tc_n (tr_com rc)) phi (tc_h (tr_com rc)) (tc_K (tr_com rc)))
                  (\<lambda>u. Inr (tc_decode cp rc u)))"

partial_function (option) force_loop :: "cryptopp \<Rightarrow> int \<Rightarrow> int \<Rightarrow> int \<Rightarrow> (exn + int) option" where
  "force_loop cp n count u =
     (if count = 0 then Some (Inr u)
      else if n = 0 then Some (Inl DivideByZero)
      else force_loop cp n (count - 1) (mr_square cp n u))"

definition force_open :: "cryptopp \<Rightarrow> tc_receiver \<Rightarrow> (exn + bool list) option" where
  "force_open cp r =
     (let count = power2 cp (tc_K (tr_com r)); u = tc_h (tr_com r)
      in map_option (\<lambda>res. sum_then res (\<lambda>v. Inr (tc_decode cp r v)))
           (force_loop cp (tc_n (tr_com r)) count u))"

text \<open>The two functions on a pair of parties.\<close>

definition tc_commit ::
    "cryptopp \<Rightarrow> int \<Rightarrow> nat \<Rightarrow> bool list \<Rightarrow> (commiter \<times> tc_receiver, tc_commitment) comp" where
  "tc_commit cp h K m = (\<lambda>(c, r).
     case commiter_commit cp h K m c of
       (Inl e, c') \<Rightarrow> (Inl e, c', r)
     | (Inr com, c') \<Rightarrow> (Inr com, c', accept_commitment com r))"

definition open_commitment :: "cryptopp \<Rightarrow> (commiter \<times> tc_receiver, bool list) comp" where
  "open_commitment cp = (\<lambda>(c, r). (receiver_open cp r (commiter_open c), c, r))"

section \<open>Lemmas\<close>

lemma exp_loop_power: "exp_loop res n x = res * x ^ unat n"
proof (induction res n x rule: exp_loop.induct)
  case (1 res n x)
  show ?case
  proof (cases "n = 0")
    case True
    then show ?thesis by (simp add: exp_loop.simps)
  next
    case False
    have bit: "n mod 2 = 1 \<longleftrightarrow> unat n mod 2 = 1"
      by (simp add: word_unat_eq_iff unat_mod)
    have "exp_loop res n x = (if n mod 2 = 1 then res * x else res) * (x * x) ^ (unat n div 2)"
      using 1 False by (subst exp_loop.simps) (simp add: unat_div)
    also have "\<dots> = res * x ^ (unat n mod 2 + 2 * (unat n div 2))"
      unfolding bit power_add power_mult
      by (cases "unat n mod 2 = 1") (simp_all add: power2_eq_square)
    also have "unat n mod 2 + 2 * (unat n div 2) = unat n" by simp
    finally show ?thesis .
  qed
qed

lemma length_prng_xor [simp]: "length (prng_xor cp u m) = length m"
  by (simp add: prng_xor_def Let_def)

lemma prng_xor_involution: "prng_xor cp u (prng_xor cp u m) = m"
  by (rule nth_equalityI) (auto simp: prng_xor_def Let_def)

lemma commiter_commit_eq:
  "create_timed_key cp (cm_n c) (cm_phi c) h K = Inr u \<Longrightarrow>
   commiter_commit cp h K m c =
     (let com = \<lparr>tc_K = K, tc_n = cm_n c, tc_h = h, tc_S = prng_xor cp u m,
                 tc_l = word_of_nat (length m)\<rparr>
      in (Inr com, c\<lparr>cm_com := com\<rparr>))"
  by (simp add: commiter_commit_def tc_encode_def Let_def list_ex_iff)

lemma force_loop_squares:
  assumes "modular_laws cp" "0 < n" "0 \<le> u" "u < n"
  shows "force_loop cp n (int k) u = Some (Inr (u ^ 2 ^ k mod n))"
  using assms(3,4)
proof (induction k arbitrary: u)
  case 0
  then show ?case by (subst force_loop.simps) simp
next
  case (Suc k)
  have "force_loop cp n (int k) (u * u mod n) = Some (Inr ((u * u mod n) ^ 2 ^ k mod n))"
    by (rule Suc.IH) (use assms(2) in simp_all)
  moreover have "(u * u mod n) ^ 2 ^ k mod n = u ^ 2 ^ Suc k mod n"
    by (simp add: power_mod power_mult flip: power2_eq_square)
  ultimately show ?case using Suc.prems assms(1,2)
    by (subst force_loop.simps) (simp add: lib_laws)
qed

lemma exp_mod_eq:
  "modular_laws cp \<Longrightarrow> 0 \<le> e \<Longrightarrow> 0 < c \<Longrightarrow> exp_mod cp a e c = Inr (a ^ nat e mod c)"
  by (simp add: exp_mod_def lib_laws)

lemma create_timed_key_eq:
  assumes "modular_laws cp" "0 < n" "0 < phi"
  shows "create_timed_key cp n phi h K = Inr (h ^ (2 ^ 2 ^ K mod nat phi) mod n)"
proof -
  have "nat (2 ^ 2 ^ K mod phi) = 2 ^ 2 ^ K mod nat phi"
    using assms(3) by (simp add: nat_mod_distrib nat_power_eq)
  then show ?thesis
    using assms by (simp add: create_timed_key_def exp_mod_eq power2_eq nat_power_eq)
qed

lemma new_commiter_Inr:
  "new_commiter com0 p q = Inr c \<longleftrightarrow>
     p mod 4 = 3 \<and> q mod 4 = 3 \<and>
     c = \<lparr>cm_p = p, cm_q = q, cm_n = p * q, cm_phi = (p - 1) * (q - 1), cm_com = com0\<rparr>"
  by (auto simp: new_commiter_def gen_prime_def)

text \<open>Half of \<open>p - 1\<close> is odd and above one for one of the two primes, so no power of two is a
  multiple of \<open>phi\<close>.\<close>

lemma power_2_mod_phi_pos:
  assumes "p mod 4 = 3" "q mod 4 = 3" "3 < p" "3 \<le> q"
  shows "0 < (2 :: nat) ^ k mod nat ((p - 1) * (q - 1))"
proof -
  define j where "j = p div 4"
  have p: "p = 4 * j + 3" using assms(1) unfolding j_def by (metis mult_div_mod_eq)
  define d where "d = 2 * j + 1"
  have d: "p - 1 = 2 * d" "odd d" "1 < d" using p assms(3) by (simp_all add: d_def)
  have "nat d dvd nat ((p - 1) * (q - 1))"
    using d assms(4) by (simp add: nat_dvd_iff nat_mult_distrib)
  moreover have "\<not> nat d dvd 2 ^ k"
    using d by (intro odd_not_dvd_power_2) (simp_all add: even_nat_iff)
  ultimately have "\<not> nat ((p - 1) * (q - 1)) dvd 2 ^ k" by (meson dvd_trans)
  then show ?thesis by (simp add: dvd_eq_mod_eq_0)
qed

section \<open>Honest commitments\<close>

text \<open>A committer made by the constructor from two different primes, whatever it committed to before.\<close>

definition commiter_ok :: "commiter \<Rightarrow> bool" where
  "commiter_ok c \<longleftrightarrow> prime_integer (cm_p c) \<and> prime_integer (cm_q c) \<and> cm_p c \<noteq> cm_q c \<and>
     cm_p c mod 4 = 3 \<and> cm_q c mod 4 = 3 \<and> cm_n c = cm_p c * cm_q c \<and>
     cm_phi c = (cm_p c - 1) * (cm_q c - 1)"

text \<open>The bits a commitment holds: both ways of opening it give them.\<close>

definition tc_sealed :: "cryptopp \<Rightarrow> tc_commitment \<Rightarrow> int \<Rightarrow> bool list \<Rightarrow> bool" where
  "tc_sealed cp com p m \<longleftrightarrow> receiver_open cp \<lparr>tr_com = com\<rparr> p = Inr m \<and>
     force_open cp \<lparr>tr_com = com\<rparr> = Some (Inr m)"

lemma new_commiter_ok:
  "new_commiter com0 p q = Inr c \<Longrightarrow> prime_integer p \<Longrightarrow> prime_integer q \<Longrightarrow> p \<noteq> q \<Longrightarrow> commiter_ok c"
  by (simp add: new_commiter_Inr commiter_ok_def)

lemma commiter_ok_update [simp]: "commiter_ok (c\<lparr>cm_com := com\<rparr>) = commiter_ok c"
  by (simp add: commiter_ok_def)

lemma commiter_phi:
  assumes "commiter_ok c"
  shows "0 < cm_n c" "0 < cm_phi c" "cm_phi c \<noteq> 0" "2 < cm_p c" "2 < cm_q c"
    "0 < (2 :: nat) ^ k mod nat (cm_phi c)"
proof -
  let ?p = "cm_p c" and ?q = "cm_q c"
  have res: "?p mod 4 = 3" "?q mod 4 = 3" and pq: "?p \<noteq> ?q"
    and f: "cm_n c = ?p * ?q" "cm_phi c = (?p - 1) * (?q - 1)"
    using assms by (simp_all add: commiter_ok_def)
  have "?p \<noteq> 2" "?q \<noteq> 2" using res by auto
  moreover have "1 < ?p" "1 < ?q" using assms by (simp_all add: commiter_ok_def prime_integer_gt_1)
  ultimately show gt: "2 < ?p" "2 < ?q" by simp_all
  then show "0 < cm_n c" "0 < cm_phi c" "cm_phi c \<noteq> 0" by (simp_all add: f)
  show "0 < (2 :: nat) ^ k mod nat (cm_phi c)"
  proof (cases "?p = 3")
    case True
    then have "3 < ?q" using gt pq by simp
    from power_2_mod_phi_pos [OF res(2) res(1) this, of k] True show ?thesis
      by (simp add: f mult.commute)
  next
    case False
    with gt power_2_mod_phi_pos [OF res, of k] show ?thesis by (simp add: f)
  qed
qed

lemma commit_sealed:
  assumes laws: "modular_laws cp" and c: "commiter_ok c" and h: "0 \<le> h" "h < cm_n c"
  shows "\<exists>com. commiter_commit cp h K m c = (Inr com, c\<lparr>cm_com := com\<rparr>) \<and>
    tc_sealed cp com (cm_p c) m"
proof -
  let ?phi = "nat (cm_phi c)" and ?e = "(2 :: nat) ^ 2 ^ K"
  note pos = commiter_phi [OF c]
  have f: "cm_n c = cm_p c * cm_q c" "cm_phi c = (cm_p c - 1) * (cm_q c - 1)"
    using c by (simp_all add: commiter_ok_def)
  let ?u = "h ^ (?e mod ?phi) mod cm_n c"
  have key: "create_timed_key cp (cm_n c) (cm_phi c) h K = Inr ?u"
    using laws pos(1,2) by (rule create_timed_key_eq)
  have u: "?u = h ^ ?e mod cm_n c"
    using power_exponent_mod_totient [of "cm_p c" "cm_q c" ?e h] c pos(6) [of "2 ^ K"]
    by (simp add: f commiter_ok_def)
  let ?com = "\<lparr>tc_K = K, tc_n = cm_n c, tc_h = h, tc_S = prng_xor cp ?u m,
                tc_l = word_of_nat (length m)\<rparr>"
  have "commiter_commit cp h K m c = (Inr ?com, c\<lparr>cm_com := ?com\<rparr>)"
    using commiter_commit_eq [OF key] by (simp add: Let_def)
  moreover have "receiver_open cp \<lparr>tr_com = ?com\<rparr> (cm_p c) = Inr m"
    using key pos by (simp add: receiver_open_def f tc_decode_def prng_xor_involution)
  moreover have "force_loop cp (cm_n c) (int (2 ^ K)) h = Some (Inr (h ^ 2 ^ (2 ^ K) mod cm_n c))"
    using laws pos(1) h by (rule force_loop_squares)
  then have "force_open cp \<lparr>tr_com = ?com\<rparr> = Some (Inr m)"
    using laws u by (simp add: force_open_def power2_eq tc_decode_def prng_xor_involution)
  ultimately show ?thesis by (auto simp: tc_sealed_def)
qed

section \<open>Properties\<close>

text \<open>C27: fast exponentiation computes the power, for every 32-bit exponent.\<close>

theorem tc_exp_power: "tc_exp x n = x ^ unat n"
  by (simp add: tc_exp_def exp_loop_power)

text \<open>
  C24: the receiver of a timed commitment gets the committed bits both ways, from the factor the
  committer reveals and, without any help, from the squarings, which end.
\<close>

theorem timed_commitment_opens:
  assumes laws: "modular_laws cp"
    and p: "prime_integer p" and q: "prime_integer q" and pq: "p \<noteq> q"
    and c: "new_commiter com0 p q = Inr c"
    and h: "2 \<le> h" "h \<le> tc_get_n c - 1"
  shows "\<exists>com c' r'. tc_commit cp h K m (c, r) = (Inr com, c', r')
    \<and> open_commitment cp (c', r') = (Inr m, c', r') \<and> force_open cp r' = Some (Inr m)"
proof -
  have ok: "commiter_ok c" using c p q pq by (rule new_commiter_ok)
  obtain com where "commiter_commit cp h K m c = (Inr com, c\<lparr>cm_com := com\<rparr>)"
    "tc_sealed cp com (cm_p c) m"
    using commit_sealed [OF laws ok, of h K m] h by (auto simp: tc_get_n_def)
  moreover have "accept_commitment com r = \<lparr>tr_com = com\<rparr>" for com
    by (cases r) (simp add: accept_commitment_def)
  ultimately show ?thesis
    by (simp add: tc_commit_def open_commitment_def commiter_open_def tc_sealed_def)
qed

theorem timed_commitment_opens_witness:
  "\<forall>com0 r. \<exists>c com c' r'. new_commiter com0 7 11 = Inr c \<and>
     tc_commit ref_cryptopp 5 3 [True, False, True] (c, r) = (Inr com, c', r')
     \<and> open_commitment ref_cryptopp (c', r') = (Inr [True, False, True], c', r')
     \<and> force_open ref_cryptopp r' = Some (Inr [True, False, True])"
proof (intro allI)
  fix com0 r
  obtain c where c: "new_commiter com0 7 11 = Inr c" and n: "tc_get_n c = 77"
    by (simp add: new_commiter_Inr tc_get_n_def)
  have "prime_integer 7" "prime_integer 11" by (simp_all add: prime_integer_code upto_rec_numeral)
  from timed_commitment_opens [OF ref_laws(2) this _ c, of 5 3 "[True, False, True]" r] c n
  show "\<exists>c com c' r'. new_commiter com0 7 11 = Inr c \<and>
     tc_commit ref_cryptopp 5 3 [True, False, True] (c, r) = (Inr com, c', r')
     \<and> open_commitment ref_cryptopp (c', r') = (Inr [True, False, True], c', r')
     \<and> force_open ref_cryptopp r' = Some (Inr [True, False, True])" by simp
qed

text \<open>
  C35: the committer reveals the same factor for every commitment it makes. The factor revealed when
  one of its commitments is opened opens all the others, without a single squaring.
\<close>

theorem revealed_factor_opens_all:
  assumes laws: "modular_laws cp"
    and p: "prime_integer p" and q: "prime_integer q" and pq: "p \<noteq> q"
    and c: "new_commiter com0 p q = Inr c"
    and h: "{h1, h2} \<subseteq> {2..tc_get_n c - 1}"
    and c1: "commiter_commit cp h1 K1 m1 c = (Inr com1, c1)"
    and c2: "commiter_commit cp h2 K2 m2 c = (Inr com2, c2)"
  shows "receiver_open cp (accept_commitment com2 r) (commiter_open c1) = Inr m2"
proof -
  have ok: "commiter_ok c" using c p q pq by (rule new_commiter_ok)
  have "0 \<le> h1" "h1 < cm_n c" "0 \<le> h2" "h2 < cm_n c" using h by (auto simp: tc_get_n_def)
  with commit_sealed [OF laws ok, of h1 K1 m1] commit_sealed [OF laws ok, of h2 K2 m2] c1 c2
  have "cm_p c1 = cm_p c" "tc_sealed cp com2 (cm_p c) m2" by auto
  moreover have "accept_commitment com2 r = \<lparr>tr_com = com2\<rparr>"
    by (cases r) (simp add: accept_commitment_def)
  ultimately show ?thesis by (simp add: commiter_open_def tc_sealed_def)
qed

theorem revealed_factor_opens_all_witness:
  "\<forall>com0 r. \<exists>c com1 c1 com2 c2. new_commiter com0 7 11 = Inr c \<and>
     commiter_commit ref_cryptopp 5 3 [True] c = (Inr com1, c1) \<and>
     commiter_commit ref_cryptopp 6 3 [False, True] c = (Inr com2, c2) \<and>
     receiver_open ref_cryptopp (accept_commitment com2 r) (commiter_open c1) = Inr [False, True]"
proof (intro allI)
  fix com0 r
  obtain c where c: "new_commiter com0 7 11 = Inr c" and n: "tc_get_n c = 77"
    by (simp add: new_commiter_Inr tc_get_n_def)
  have p: "prime_integer 7" "prime_integer 11" by (simp_all add: prime_integer_code upto_rec_numeral)
  then have ok: "commiter_ok c" using new_commiter_ok [OF c] by simp
  obtain com1 c1 com2 c2 where k: "commiter_commit ref_cryptopp 5 3 [True] c = (Inr com1, c1)"
    "commiter_commit ref_cryptopp 6 3 [False, True] c = (Inr com2, c2)"
    using commit_sealed [OF ref_laws(2) ok, of 5 3 "[True]"]
      commit_sealed [OF ref_laws(2) ok, of 6 3 "[False, True]"] n by (auto simp: tc_get_n_def)
  show "\<exists>c com1 c1 com2 c2. new_commiter com0 7 11 = Inr c \<and>
     commiter_commit ref_cryptopp 5 3 [True] c = (Inr com1, c1) \<and>
     commiter_commit ref_cryptopp 6 3 [False, True] c = (Inr com2, c2) \<and>
     receiver_open ref_cryptopp (accept_commitment com2 r) (commiter_open c1) = Inr [False, True]"
    using revealed_factor_opens_all [OF ref_laws(2) p _ c _ k] c k n by auto
qed

text \<open>C26: opening by squarings ends for every commitment, whatever its modulus.\<close>

theorem force_open_ends:
  assumes "modular_laws cp"
  shows "\<exists>res. force_open cp r = Some res"
proof -
  have "\<exists>res. force_loop cp n (int k) u = Some res" for n k u
    by (induction k arbitrary: u) (subst force_loop.simps, simp)+
  from this [of "tc_n (tr_com r)" "2 ^ tc_K (tr_com r)" "tc_h (tr_com r)"] show ?thesis
    using assms by (auto simp: force_open_def power2_eq)
qed

theorem force_open_ends_witness:
  "\<exists>res. force_open ref_cryptopp \<lparr>tr_com = \<lparr>tc_K = 3, tc_n = 0, tc_h = -4, tc_S = [True], tc_l = 9\<rparr>\<rparr>
     = Some res"
  by (rule force_open_ends [OF ref_laws(2)])

text \<open>
  C25: what the receiver does with any revealed number, for any commitment: the documented exception
  when it does not divide \<open>n\<close>, the exception of the library when it is zero or a trivial factor, and
  a decoding otherwise, for a negative divisor too.
\<close>

theorem receiver_open_behaviour:
  "(receiver_open cp r p = Inl (TimedProtocolException ''p does not divide n'')
      \<longleftrightarrow> p \<noteq> 0 \<and> \<not> p dvd tc_n (tr_com r))
   \<and> (receiver_open cp r p = Inl DivideByZero
      \<longleftrightarrow> p = 0 \<or> p = 1 \<or> p = tc_n (tr_com r) \<or> tc_n (tr_com r) = 0)
   \<and> ((\<exists>m. receiver_open cp r p = Inr m)
      \<longleftrightarrow> p dvd tc_n (tr_com r) \<and> p \<notin> {0, 1, tc_n (tr_com r)} \<and> tc_n (tr_com r) \<noteq> 0)"
proof -
  let ?n = "tc_n (tr_com r)"
  consider "p = 0" | "p \<noteq> 0" "\<not> p dvd ?n" | k where "p \<noteq> 0" "?n = p * k" by (auto elim: dvdE)
  then show ?thesis
  proof cases
    case 1
    then show ?thesis by (simp add: receiver_open_def)
  next
    case 2
    then show ?thesis by (auto simp: receiver_open_def Let_def dvd_eq_mod_eq_0)
  next
    case 3
    then show ?thesis
      by (auto simp: receiver_open_def Let_def create_timed_key_def exp_mod_def)
  qed
qed

end
