(* ===== verification/Elliptic_Curve.thy ===== *)
theory Elliptic_Curve
  imports Reference_Library
begin

text \<open>
  The elliptic-curve group the program takes from the library: \<^verbatim>\<open>CryptoPP::ECPPoint\<close> with its
  \<^verbatim>\<open>operator==\<close>, and the operations of \<^verbatim>\<open>CryptoPP::ECP\<close> on the curve that
  \<open>common::ec_parameters()\<close> selects (secp256k1). The group is a parameter of the model, the record
  \<open>ec\<close>; \<open>ec_laws\<close> states what the program relies on: a cyclic group of prime order, in which a point
  and its negative have the same first coordinate.
\<close>

datatype ec_point = Identity | Point int int

text \<open>The coordinates of the identity are zero in the library.\<close>

fun x_coord :: "ec_point \<Rightarrow> int" where
  "x_coord Identity = 0"
| "x_coord (Point x y) = x"

fun y_coord :: "ec_point \<Rightarrow> int" where
  "y_coord Identity = 0"
| "y_coord (Point x y) = y"

record ec =
  ec_multiply :: "int \<Rightarrow> ec_point \<Rightarrow> ec_point"    \<comment> \<open>ECP::Multiply\<close>
  ec_add :: "ec_point \<Rightarrow> ec_point \<Rightarrow> ec_point"    \<comment> \<open>ECP::Add\<close>
  ec_generator :: ec_point                       \<comment> \<open>GetSubgroupGenerator\<close>
  ec_order :: int                                \<comment> \<open>GetGroupOrder\<close>

definition ec_laws :: "ec \<Rightarrow> bool" where
  "ec_laws ec \<longleftrightarrow>
     prime_integer (ec_order ec) \<and>
     (\<forall>a b. 0 \<le> a \<and> 0 \<le> b \<longrightarrow>
        (ec_multiply ec a (ec_generator ec) = ec_multiply ec b (ec_generator ec)
           \<longleftrightarrow> a mod ec_order ec = b mod ec_order ec) \<and>
        ec_multiply ec a (ec_multiply ec b (ec_generator ec)) = ec_multiply ec (a * b) (ec_generator ec) \<and>
        ec_add ec (ec_multiply ec a (ec_generator ec)) (ec_multiply ec b (ec_generator ec))
          = ec_multiply ec (a + b) (ec_generator ec)) \<and>
     ec_multiply ec 0 (ec_generator ec) = Identity \<and>
     (\<forall>a. 0 \<le> a \<and> a \<le> ec_order ec \<longrightarrow>
        x_coord (ec_multiply ec (ec_order ec - a) (ec_generator ec))
          = x_coord (ec_multiply ec a (ec_generator ec))) \<and>
     (\<forall>a. 0 \<le> a \<longrightarrow> 0 \<le> x_coord (ec_multiply ec a (ec_generator ec)))"

section \<open>Consequences\<close>

lemma ec_order_prime: "ec_laws ec \<Longrightarrow> prime_integer (ec_order ec)"
  by (simp add: ec_laws_def)

lemma ec_order_gt_1: "ec_laws ec \<Longrightarrow> 1 < ec_order ec"
  by (simp add: ec_order_prime prime_integer_gt_1)

lemma ec_generator_eq_iff:
  "ec_laws ec \<Longrightarrow> 0 \<le> a \<Longrightarrow> 0 \<le> b \<Longrightarrow>
     ec_multiply ec a (ec_generator ec) = ec_multiply ec b (ec_generator ec)
       \<longleftrightarrow> a mod ec_order ec = b mod ec_order ec"
  by (simp add: ec_laws_def)

lemma ec_multiply_multiply:
  "ec_laws ec \<Longrightarrow> 0 \<le> a \<Longrightarrow> 0 \<le> b \<Longrightarrow>
     ec_multiply ec a (ec_multiply ec b (ec_generator ec)) = ec_multiply ec (a * b) (ec_generator ec)"
  by (simp add: ec_laws_def)

lemma ec_add_multiply:
  "ec_laws ec \<Longrightarrow> 0 \<le> a \<Longrightarrow> 0 \<le> b \<Longrightarrow>
     ec_add ec (ec_multiply ec a (ec_generator ec)) (ec_multiply ec b (ec_generator ec))
       = ec_multiply ec (a + b) (ec_generator ec)"
  by (simp add: ec_laws_def)

lemma ec_multiply_identity_iff:
  assumes "ec_laws ec" "0 \<le> a"
  shows "ec_multiply ec a (ec_generator ec) = Identity \<longleftrightarrow> ec_order ec dvd a"
proof -
  have "ec_multiply ec a (ec_generator ec) = ec_multiply ec 0 (ec_generator ec)
      \<longleftrightarrow> a mod ec_order ec = 0 mod ec_order ec"
    using assms by (simp only: ec_generator_eq_iff order_refl)
  then show ?thesis using assms(1) by (simp add: ec_laws_def dvd_eq_mod_eq_0)
qed

lemma x_coord_nonneg: "ec_laws ec \<Longrightarrow> 0 \<le> a \<Longrightarrow> 0 \<le> x_coord (ec_multiply ec a (ec_generator ec))"
  by (simp add: ec_laws_def)

text \<open>Equal or opposite multiples of the generator have one first coordinate.\<close>

lemma x_coord_same:
  assumes laws: "ec_laws ec" and nn: "0 \<le> a" "0 \<le> b"
    and eq: "ec_order ec dvd a - b \<or> ec_order ec dvd a + b"
  shows "x_coord (ec_multiply ec a (ec_generator ec)) = x_coord (ec_multiply ec b (ec_generator ec))"
  using eq
proof
  assume "ec_order ec dvd a - b"
  then have "a mod ec_order ec = b mod ec_order ec" by (simp add: mod_eq_dvd_iff)
  then show ?thesis using ec_generator_eq_iff [OF laws nn] by simp
next
  let ?n = "ec_order ec"
  assume "?n dvd a + b"
  have n: "0 < ?n" using ec_order_gt_1 [OF laws] by simp
  have m: "0 \<le> b mod ?n" "b mod ?n \<le> ?n" using n by (simp_all add: less_imp_le)
  have "?n dvd (a + b) + (- 1 + b div ?n * - 1) * ?n"
    using \<open>?n dvd a + b\<close> dvd_triv_right by (rule dvd_add)
  moreover have "(a + b) + (- 1 + b div ?n * - 1) * ?n = a - (?n - b mod ?n)"
    by (simp add: algebra_simps minus_div_mult_eq_mod [symmetric])
  ultimately have "a mod ?n = (?n - b mod ?n) mod ?n" by (simp only: mod_eq_dvd_iff)
  then have "ec_multiply ec a (ec_generator ec) = ec_multiply ec (?n - b mod ?n) (ec_generator ec)"
    using ec_generator_eq_iff [OF laws nn(1), of "?n - b mod ?n"] m by simp
  moreover have "x_coord (ec_multiply ec (?n - b mod ?n) (ec_generator ec))
      = x_coord (ec_multiply ec (b mod ?n) (ec_generator ec))"
    using laws m by (simp add: ec_laws_def)
  moreover have "ec_multiply ec (b mod ?n) (ec_generator ec) = ec_multiply ec b (ec_generator ec)"
    using ec_generator_eq_iff [OF laws m(1) nn(2)] by simp
  ultimately show ?thesis by simp
qed

section \<open>A group of order five for the witnesses\<close>

text \<open>\<open>off\<close> shifts the first coordinates, which may exceed the group order.\<close>

definition ref_point :: "int \<Rightarrow> int \<Rightarrow> ec_point" where
  "ref_point off k =
     (if k mod 5 = 0 then Identity else Point (off + min (k mod 5) (5 - k mod 5)) (k mod 5))"

fun ref_log :: "ec_point \<Rightarrow> int" where
  "ref_log Identity = 0"
| "ref_log (Point x y) = y"

definition ref_ec :: "int \<Rightarrow> ec" where
  "ref_ec off =
     \<lparr>ec_multiply = (\<lambda>k P. ref_point off (k * ref_log P)),
      ec_add = (\<lambda>P Q. ref_point off (ref_log P + ref_log Q)),
      ec_generator = ref_point off 1, ec_order = 5\<rparr>"

lemma ref_log_point [simp]: "ref_log (ref_point off k) = k mod 5"
  by (simp add: ref_point_def)

lemma ref_ec_simps:
  "ec_multiply (ref_ec off) k P = ref_point off (k * ref_log P)"
  "ec_add (ref_ec off) P Q = ref_point off (ref_log P + ref_log Q)"
  "ec_generator (ref_ec off) = ref_point off 1" "ec_order (ref_ec off) = 5"
  by (simp_all add: ref_ec_def)

lemma ref_point_mod: "a mod 5 = b mod 5 \<Longrightarrow> ref_point off a = ref_point off b"
  by (simp add: ref_point_def)

lemma ref_ec_laws:
  assumes "0 \<le> off"
  shows "ec_laws (ref_ec off)"
proof -
  have prime: "prime_integer 5" by (simp add: prime_integer_code upto_rec_numeral)
  have eq: "ref_point off a = ref_point off b \<longleftrightarrow> a mod 5 = b mod 5" for a b
    by (metis ref_log_point ref_point_mod)
  have opp: "x_coord (ref_point off (5 - a)) = x_coord (ref_point off a)" for a
  proof -
    have "a mod 5 \<in> {0, 1, 2, 3, 4}" by simp presburger
    moreover have "(5 - a) mod 5 = (5 - a mod 5) mod 5" by presburger
    ultimately show ?thesis by (auto simp: ref_point_def)
  qed
  have nn: "0 \<le> x_coord (ref_point off a)" for a using assms by (simp add: ref_point_def)
  show ?thesis
    unfolding ec_laws_def ref_ec_simps
    by (auto simp: prime eq opp nn mod_simps) (simp add: ref_point_def)
qed

end
