(* ===== verification/Paillier.thy ===== *)
theory Paillier
  imports Common
begin

text \<open>
  shared_signature/paillier.h and paillier.cpp: the additively homomorphic Paillier cryptosystem.
  The primes and the random number of an encryption, drawn from the generator in the code, are
  arguments.
\<close>

section \<open>The class\<close>

record paillier =
  pl_p :: int
  pl_q :: int
  pl_n :: int
  pl_n2 :: int
  pl_y :: int
  pl_g :: int
  pl_u :: int
  pl_phi :: int

text \<open>The three constructors: the default one, the generation of a key, a public key only.\<close>

definition paillier_default :: paillier where
  "paillier_default = \<lparr>pl_p = 0, pl_q = 0, pl_n = 0, pl_n2 = 0, pl_y = 0, pl_g = 0, pl_u = 0, pl_phi = 0\<rparr>"

definition paillier_generate :: "cryptopp \<Rightarrow> int \<Rightarrow> int \<Rightarrow> paillier" where
  "paillier_generate cp p q =
     (let n = p * q; phi = (p - 1) * (q - 1)
      in \<lparr>pl_p = p, pl_q = q, pl_n = n, pl_n2 = n * n, pl_y = (p - 1) * (q - 1), pl_g = n + 1,
          pl_u = inverse_mod cp phi n, pl_phi = phi\<rparr>)"

definition paillier_client :: "int \<Rightarrow> int \<Rightarrow> paillier" where
  "paillier_client n g = paillier_default\<lparr>pl_n := n, pl_n2 := n * n, pl_g := g, pl_p := -1, pl_q := -1\<rparr>"

definition paillier_L :: "paillier \<Rightarrow> int \<Rightarrow> int" where
  "paillier_L pl x = (x - 1) div pl_n pl"

definition paillier_get_n :: "paillier \<Rightarrow> exn + int" where
  "paillier_get_n pl = (if pl_n pl = 0 then Inl (PaillierException ''not initialized'') else Inr (pl_n pl))"

definition paillier_get_n2 :: "paillier \<Rightarrow> exn + int" where
  "paillier_get_n2 pl = (if pl_n pl = 0 then Inl (PaillierException ''not initialized'') else Inr (pl_n2 pl))"

definition paillier_get_g :: "paillier \<Rightarrow> exn + int" where
  "paillier_get_g pl = (if pl_n pl = 0 then Inl (PaillierException ''not initialized'') else Inr (pl_g pl))"

definition paillier_enc :: "cryptopp \<Rightarrow> paillier \<Rightarrow> int \<Rightarrow> int \<Rightarrow> exn + int" where
  "paillier_enc cp pl r m =
     (if pl_n pl = 0 then Inl (PaillierException ''not initialized'')
      else if m \<ge> pl_n pl \<or> m < 0 then Inl (PaillierException ''m >= n || m < 0 '')
      else Inr (a_times_b_mod_c cp (a_exp_b_mod_c cp (pl_g pl) m (pl_n2 pl))
                  (a_exp_b_mod_c cp r (pl_n pl) (pl_n2 pl)) (pl_n2 pl)))"

definition paillier_dec :: "cryptopp \<Rightarrow> paillier \<Rightarrow> int \<Rightarrow> exn + int" where
  "paillier_dec cp pl c =
     (if pl_n pl = 0 then Inl (PaillierException ''not initialized'')
      else if pl_p pl = -1 \<or> pl_q pl = -1 then Inl (PaillierException ''client can not decrypt data'')
      else if c \<le> 0 \<or> c \<ge> pl_n2 pl then Inl (PaillierException ''c <= 0 || c >= n2'')
      else if c mod pl_p pl = 0 \<or> c mod pl_q pl = 0
      then Inl (PaillierException ''c % p == 0 || c % q == 0'')
      else Inr (a_times_b_mod_c cp (paillier_L pl (a_exp_b_mod_c cp c (pl_y pl) (pl_n2 pl)))
                  (pl_u pl) (pl_n pl)))"

section \<open>The contract of an additively homomorphic encryption\<close>

locale additive_encryption =
  fixes valid :: "'k \<Rightarrow> bool"
    and modulus :: "'k \<Rightarrow> int"
    and cipher :: "'k \<Rightarrow> int \<Rightarrow> int \<Rightarrow> bool"
    and combine scale :: "'k \<Rightarrow> int \<Rightarrow> int \<Rightarrow> int"
    and decrypt :: "'k \<Rightarrow> int \<Rightarrow> exn + int"
  assumes decrypt_cipher: "valid k \<Longrightarrow> cipher k m c \<Longrightarrow> decrypt k c = Inr (m mod modulus k)"
    and combine_cipher: "valid k \<Longrightarrow> cipher k m c \<Longrightarrow> cipher k m' c' \<Longrightarrow> cipher k (m + m') (combine k c c')"
    and scale_cipher: "valid k \<Longrightarrow> cipher k m c \<Longrightarrow> 0 \<le> t \<Longrightarrow> cipher k (t * m) (scale k c t)"
begin

text \<open>The combination the signing protocol computes: two ciphertexts and one scaled ciphertext.\<close>

lemma decrypt_linear:
  assumes "valid k" "cipher k a c1" "cipher k d cs" "cipher k w cw" "0 \<le> t"
  shows "decrypt k (combine k (combine k c1 (scale k cs t)) cw) = Inr ((a + t * d + w) mod modulus k)"
  using assms by (intro decrypt_cipher combine_cipher scale_cipher)

end

section \<open>Keys and ciphertexts\<close>

text \<open>A key the generating constructor makes from primes for which the inverse exists.\<close>

definition paillier_key :: "cryptopp \<Rightarrow> paillier \<Rightarrow> bool" where
  "paillier_key cp pl \<longleftrightarrow> modular_laws cp \<and> prime_integer (pl_p pl) \<and> prime_integer (pl_q pl) \<and>
     pl_p pl \<noteq> pl_q pl \<and> coprime ((pl_p pl - 1) * (pl_q pl - 1)) (pl_p pl * pl_q pl) \<and>
     pl = paillier_generate cp (pl_p pl) (pl_q pl)"

text \<open>\<open>c\<close> is an encryption of \<open>m\<close>, with a random number that is a unit.\<close>

definition paillier_cipher :: "paillier \<Rightarrow> int \<Rightarrow> int \<Rightarrow> bool" where
  "paillier_cipher pl m c \<longleftrightarrow> 0 \<le> m \<and> (\<exists>r. coprime r (pl_n pl) \<and>
     c = (1 + pl_n pl) ^ nat m * r ^ nat (pl_n pl) mod (pl_n pl * pl_n pl))"

lemma paillier_key_fields:
  assumes "paillier_key cp pl"
  shows "pl_n pl = pl_p pl * pl_q pl" "pl_n2 pl = pl_n pl * pl_n pl" "pl_g pl = pl_n pl + 1"
    "pl_y pl = (pl_p pl - 1) * (pl_q pl - 1)"
    "pl_u pl = inverse_mod cp ((pl_p pl - 1) * (pl_q pl - 1)) (pl_n pl)"
    "1 < pl_p pl" "1 < pl_q pl" "1 < pl_n pl"
proof -
  have e: "pl = paillier_generate cp (pl_p pl) (pl_q pl)"
    using assms by (simp add: paillier_key_def)
  show "pl_n pl = pl_p pl * pl_q pl" by (subst e) (simp add: paillier_generate_def Let_def)
  then show "pl_n2 pl = pl_n pl * pl_n pl" "pl_g pl = pl_n pl + 1"
    "pl_y pl = (pl_p pl - 1) * (pl_q pl - 1)"
    "pl_u pl = inverse_mod cp ((pl_p pl - 1) * (pl_q pl - 1)) (pl_n pl)"
    by (subst e, simp add: paillier_generate_def Let_def)+
  show "1 < pl_p pl" "1 < pl_q pl" using assms by (simp_all add: paillier_key_def prime_integer_gt_1)
  then show "1 < pl_n pl" using \<open>pl_n pl = pl_p pl * pl_q pl\<close>
    by (metis less_1_mult)
qed

lemma paillier_enc_cipher:
  assumes "modular_laws cp" "0 < pl_n pl" "pl_n2 pl = pl_n pl * pl_n pl" "pl_g pl = pl_n pl + 1"
    and "coprime r (pl_n pl)" "0 \<le> m" "m < pl_n pl"
  shows "\<exists>c. paillier_enc cp pl r m = Inr c \<and> paillier_cipher pl m c"
  using assms by (auto simp: paillier_enc_def paillier_cipher_def lib_laws mod_mult_eq add.commute)

lemma paillier_cipher_unit:
  assumes "paillier_cipher pl m c" "1 < pl_n pl"
  shows "coprime c (pl_n pl)" "0 < c" "c < pl_n pl * pl_n pl"
proof -
  let ?n = "pl_n pl"
  obtain r where r: "coprime r ?n" "c = (1 + ?n) ^ nat m * r ^ nat ?n mod (?n * ?n)"
    using assms(1) by (auto simp: paillier_cipher_def)
  have "coprime (1 + ?n) ?n" by (metis coprime_add_one_left coprime_commute add.commute)
  then have "coprime ((1 + ?n) ^ nat m * r ^ nat ?n) ?n" using r(1) by simp
  then have "coprime ((1 + ?n) ^ nat m * r ^ nat ?n mod (?n * ?n)) ?n"
    by (metis coprime_mod_left_iff coprime_mult_right_iff mod_0_imp_dvd assms(2) mult_eq_0_iff not_one_less_zero)
  then show cop: "coprime c ?n" using r(2) by simp
  have "0 < ?n * ?n" using assms(2) by simp
  then have "0 \<le> c" "c < ?n * ?n" unfolding r(2) by simp_all
  moreover have "c \<noteq> 0" using cop assms(2) by auto
  ultimately show "0 < c" "c < ?n * ?n" by simp_all
qed


lemma paillier_cipher_power:
  assumes key: "paillier_key cp pl" and c: "paillier_cipher pl m c"
  shows "c ^ nat (pl_y pl) mod (pl_n pl * pl_n pl) = 1 + (m * pl_y pl mod pl_n pl) * pl_n pl"
proof -
  let ?n = "pl_n pl" and ?y = "pl_y pl"
  note f = paillier_key_fields [OF key]
  obtain r where r: "0 \<le> m" "coprime r ?n" "c = (1 + ?n) ^ nat m * r ^ nat ?n mod (?n * ?n)"
    using c by (auto simp: paillier_cipher_def)
  have y: "0 \<le> ?y" using f by simp
  have one: "r ^ (nat ?n * nat ?y) mod (?n * ?n) = 1 mod (?n * ?n)"
    using unit_power_totient_square [of "pl_p pl" "pl_q pl" r] key r(2)
    by (simp add: f(1,4) paillier_key_def)
  have "c ^ nat ?y mod (?n * ?n) = ((1 + ?n) ^ nat m * r ^ nat ?n) ^ nat ?y mod (?n * ?n)"
    unfolding r(3) by (simp add: power_mod)
  also have "\<dots> = (1 + 1 * ?n) ^ (nat m * nat ?y) * r ^ (nat ?n * nat ?y) mod (?n * ?n)"
    by (simp add: power_mult_distrib power_mult)
  also have "\<dots> = ((1 + int (nat m * nat ?y) * 1 * ?n) mod (?n * ?n)) * (1 mod (?n * ?n)) mod (?n * ?n)"
    by (subst mod_mult_eq [symmetric]) (simp only: one one_plus_power)
  also have "\<dots> = (1 + (m * ?y) * ?n) mod (?n * ?n)"
    using r(1) y by (simp add: mod_mult_right_eq)
  also have "\<dots> = (1 + (m * ?y mod ?n) * ?n) mod (?n * ?n)"
  proof -
    have "m * ?y = m * ?y mod ?n + ?n * (m * ?y div ?n)" by simp
    then have "1 + (m * ?y) * ?n = 1 + (m * ?y mod ?n) * ?n + (m * ?y div ?n) * (?n * ?n)"
      by (metis (no_types) distrib_right add.assoc mult.assoc mult.commute)
    then show ?thesis by (metis mod_mult_self1)
  qed
  also have "\<dots> = 1 + (m * ?y mod ?n) * ?n"
  proof (rule mod_pos_pos_trivial)
    have b: "0 \<le> m * ?y mod ?n" "m * ?y mod ?n \<le> ?n - 1" using f(8) by simp_all
    then show "0 \<le> 1 + (m * ?y mod ?n) * ?n" using f(8) by simp
    have "(m * ?y mod ?n) * ?n \<le> (?n - 1) * ?n" using b(2) f(8) by (intro mult_right_mono) simp_all
    then show "1 + (m * ?y mod ?n) * ?n < ?n * ?n" using f(8) by (simp add: algebra_simps)
  qed
  finally show ?thesis .
qed

lemma paillier_dec_cipher:
  assumes key: "paillier_key cp pl" and c: "paillier_cipher pl m c"
  shows "paillier_dec cp pl c = Inr (m mod pl_n pl)"
proof -
  let ?n = "pl_n pl" and ?y = "pl_y pl"
  note f = paillier_key_fields [OF key] and u = paillier_cipher_unit [OF c f(8)]
  have laws: "modular_laws cp" using key by (simp add: paillier_key_def)
  have cop: "coprime c (pl_p pl)" "coprime c (pl_q pl)" using u(1) f(1) by simp_all
  have nd: "c mod pl_p pl \<noteq> 0" "c mod pl_q pl \<noteq> 0"
    using cop f(6,7) by (auto simp: mod_eq_0_iff_dvd dest: coprime_common_divisor_int)
  have y: "0 \<le> ?y" using f by simp
  have "a_exp_b_mod_c cp c ?y (pl_n2 pl) = 1 + (m * ?y mod ?n) * ?n"
    using paillier_cipher_power [OF key c] f(2,8) y laws by (simp add: lib_laws)
  then have L: "paillier_L pl (a_exp_b_mod_c cp c ?y (pl_n2 pl)) = m * ?y mod ?n"
    using f(8) by (simp add: paillier_L_def)
  have "coprime ?y ?n" using key f(1,4) by (simp add: paillier_key_def)
  then have inv: "?y * pl_u pl mod ?n = 1"
    using inverse_mod_inverse [OF laws f(8)] f(4,5) by simp
  have "(m * ?y mod ?n) * pl_u pl mod ?n = m * (?y * pl_u pl mod ?n) mod ?n"
    by (simp add: mod_mult_left_eq mod_mult_right_eq mult.assoc)
  then have "a_times_b_mod_c cp (m * ?y mod ?n) (pl_u pl) ?n = m mod ?n"
    using inv laws f(8) by (simp add: lib_laws)
  with L nd u f show ?thesis by (simp add: paillier_dec_def)
qed

lemma paillier_cipher_mult:
  assumes key: "paillier_key cp pl" and c: "paillier_cipher pl m c" "paillier_cipher pl m' c'"
  shows "paillier_cipher pl (m + m') (a_times_b_mod_c cp c c' (pl_n2 pl))"
proof -
  let ?n = "pl_n pl"
  note f = paillier_key_fields [OF key]
  obtain r r' where r: "coprime r ?n" "c = (1 + ?n) ^ nat m * r ^ nat ?n mod (?n * ?n)"
    "coprime r' ?n" "c' = (1 + ?n) ^ nat m' * r' ^ nat ?n mod (?n * ?n)" "0 \<le> m" "0 \<le> m'"
    using c by (auto simp: paillier_cipher_def)
  have "a_times_b_mod_c cp c c' (pl_n2 pl) = c * c' mod (?n * ?n)"
    using key f by (simp add: paillier_key_def lib_laws)
  also have "\<dots> = ((1 + ?n) ^ nat m * r ^ nat ?n) * ((1 + ?n) ^ nat m' * r' ^ nat ?n) mod (?n * ?n)"
    unfolding r(2,4) by (simp add: mod_mult_eq)
  also have "((1 + ?n) ^ nat m * r ^ nat ?n) * ((1 + ?n) ^ nat m' * r' ^ nat ?n)
      = (1 + ?n) ^ nat (m + m') * (r * r') ^ nat ?n"
    using r(5,6) by (simp add: nat_add_distrib power_add power_mult_distrib ac_simps)
  finally show ?thesis unfolding paillier_cipher_def
    using r by (intro conjI exI [of _ "r * r'"]) simp_all
qed

lemma paillier_cipher_scale:
  assumes key: "paillier_key cp pl" and c: "paillier_cipher pl m c" and t: "0 \<le> t"
  shows "paillier_cipher pl (t * m) (a_exp_b_mod_c cp c t (pl_n2 pl))"
proof -
  let ?n = "pl_n pl"
  note f = paillier_key_fields [OF key]
  obtain r where r: "coprime r ?n" "c = (1 + ?n) ^ nat m * r ^ nat ?n mod (?n * ?n)" "0 \<le> m"
    using c by (auto simp: paillier_cipher_def)
  have "a_exp_b_mod_c cp c t (pl_n2 pl) = c ^ nat t mod (?n * ?n)"
    using key f t by (simp add: paillier_key_def lib_laws)
  also have "\<dots> = ((1 + ?n) ^ nat m * r ^ nat ?n) ^ nat t mod (?n * ?n)"
    unfolding r(2) by (simp add: power_mod)
  also have "((1 + ?n) ^ nat m * r ^ nat ?n) ^ nat t = (1 + ?n) ^ nat (t * m) * (r ^ nat t) ^ nat ?n"
    using r(3) t by (simp add: nat_mult_distrib power_mult_distrib mult.commute flip: power_mult)
  finally show ?thesis unfolding paillier_cipher_def
    using r t by (intro conjI exI [of _ "r ^ nat t"]) simp_all
qed

text \<open>Encrypting with the key, or with the public part of it.\<close>

lemma paillier_key_enc:
  assumes key: "paillier_key cp pl" and "coprime r (pl_n pl)" "0 \<le> m" "m < pl_n pl"
  shows "\<exists>c. paillier_enc cp pl r m = Inr c \<and> paillier_cipher pl m c"
proof -
  note f = paillier_key_fields [OF key]
  show ?thesis
    using key f(8) assms(2-4) by (intro paillier_enc_cipher f(2,3)) (simp_all add: paillier_key_def)
qed

lemma paillier_client_enc:
  "paillier_key cp pl \<Longrightarrow> paillier_enc cp (paillier_client (pl_n pl) (pl_g pl)) = paillier_enc cp pl"
  by (rule ext)+ (simp add: paillier_enc_def paillier_client_def paillier_key_fields(2))

interpretation pail: additive_encryption
  "paillier_key cp" pl_n paillier_cipher
  "\<lambda>pl c c'. a_times_b_mod_c cp c c' (pl_n2 pl)" "\<lambda>pl c t. a_exp_b_mod_c cp c t (pl_n2 pl)"
  "paillier_dec cp" for cp
  by unfold_locales (simp_all add: paillier_dec_cipher paillier_cipher_mult paillier_cipher_scale)

text \<open>Distinct primes of the same size make a key.\<close>

lemma paillier_generated_key:
  assumes laws: "modular_laws cp" and p: "prime_integer p" and q: "prime_integer q" and pq: "p \<noteq> q"
    and ge: "4 \<le> p" "4 \<le> q" and le: "q \<le> 2 * p" "p \<le> 2 * q"
  shows "paillier_key cp (paillier_generate cp p q)"
proof -
  have nd: "\<not> p dvd q - 1" "\<not> q dvd p - 1"
    using prime_not_dvd_pred [OF p q ge le(1)] prime_not_dvd_pred [OF q p ge(2,1) le(2)] .
  have nd': "\<not> p dvd p - 1" "\<not> q dvd q - 1" using ge by (simp_all add: zdvd_not_zless)
  have "coprime p ((p - 1) * (q - 1))" "coprime q ((p - 1) * (q - 1))"
    using nd nd' p q by (auto intro!: prime_integer_coprime dest: prime_integer_dvd_mult)
  then have "coprime ((p - 1) * (q - 1)) (p * q)" by (simp only: coprime_mult_right_iff coprime_commute)
  then show ?thesis
    using laws p q pq by (simp add: paillier_key_def paillier_generate_def Let_def)
qed

section \<open>Properties\<close>

text \<open>A key for the witnesses, from the primes 3 and 5.\<close>

lemma paillier_key_ref: "paillier_key ref_cryptopp (paillier_generate ref_cryptopp 3 5)"
proof -
  have "prime_integer 3" "prime_integer 5" by (simp_all add: prime_integer_code upto_rec_numeral)
  moreover have "coprime (8 :: int) 15" by (rule coprime_bezout [of 2 _ "-1"]) simp
  ultimately show ?thesis by (simp add: paillier_key_def paillier_generate_def Let_def ref_laws)
qed

lemma paillier_cipher_ref:
  "paillier_cipher (paillier_generate ref_cryptopp 3 5) 4 (16 ^ 4 * 2 ^ 15 mod 225)"
proof -
  have "coprime (2 :: int) 15" by (rule coprime_bezout [of 8 _ "-1"]) simp
  then show ?thesis unfolding paillier_cipher_def
    by (intro conjI exI [of _ 2]) (simp_all add: paillier_generate_def Let_def)
qed

text \<open>
  The primes the generating constructor draws, distinct and of the same number of bits, make a
  key for which decryption works, whose modulus has at least twice that many bits.
\<close>

theorem paillier_generate_key:
  assumes laws: "modular_laws cp" and p: "prime_integer p" and q: "prime_integer q" and pq: "p \<noteq> q"
    and b: "2 \<le> b" "p \<in> {2 ^ b .. 2 ^ (b + 1)}" "q \<in> {2 ^ b .. 2 ^ (b + 1)}"
  shows "paillier_key cp (paillier_generate cp p q) \<and> 2 ^ (2 * b) \<le> pl_n (paillier_generate cp p q)"
proof -
  have "(2 :: int) ^ 2 \<le> 2 ^ b" using b(1) by (intro power_increasing) simp_all
  then have "4 \<le> p" "4 \<le> q" "q \<le> 2 * p" "p \<le> 2 * q" using b by auto
  then have "paillier_key cp (paillier_generate cp p q)" by (rule paillier_generated_key [OF laws p q pq])
  moreover have "(2 :: int) ^ b * 2 ^ b \<le> p * q" using b by (intro mult_mono) simp_all
  ultimately show ?thesis by (simp add: paillier_generate_def Let_def mult_2 power_add)
qed

theorem paillier_generate_key_witness:
  "paillier_key ref_cryptopp (paillier_generate ref_cryptopp 5 7)"
proof -
  have "prime_integer 5" "prime_integer 7" by (simp_all add: prime_integer_code upto_rec_numeral)
  from paillier_generate_key [OF ref_laws(2) this, of 2] show ?thesis by simp
qed

text \<open>
  C17: decryption undoes encryption, whether the message was encrypted with the key or with the
  public key a client was given, when the random number is a unit.
\<close>

theorem paillier_dec_enc:
  assumes "paillier_key cp pl" "0 \<le> m" "m < pl_n pl" "coprime r (pl_n pl)"
  shows "sum_then (paillier_enc cp pl r m) (paillier_dec cp pl) = Inr m \<and>
    sum_then (paillier_enc cp (paillier_client (pl_n pl) (pl_g pl)) r m) (paillier_dec cp pl) = Inr m"
proof -
  note f = paillier_key_fields [OF assms(1)]
  have laws: "modular_laws cp" using assms(1) by (simp add: paillier_key_def)
  let ?pub = "paillier_client (pl_n pl) (pl_g pl)"
  obtain c where "paillier_enc cp pl r m = Inr c" "paillier_cipher pl m c"
    using paillier_enc_cipher [OF laws _ f(2,3) assms(4,2,3)] f(8) by auto
  moreover have "paillier_enc cp ?pub r m = paillier_enc cp pl r m"
    by (simp add: paillier_enc_def paillier_client_def f(2))
  ultimately show ?thesis using paillier_dec_cipher [OF assms(1)] assms(2,3) by simp
qed

theorem paillier_dec_enc_witness:
  "sum_then (paillier_enc ref_cryptopp (paillier_generate ref_cryptopp 3 5) 2 4)
     (paillier_dec ref_cryptopp (paillier_generate ref_cryptopp 3 5)) = Inr 4"
proof -
  have n: "pl_n (paillier_generate ref_cryptopp 3 5) = 15" by (simp add: paillier_generate_def Let_def)
  have "coprime (2 :: int) 15" by (rule coprime_bezout [of 8 _ "-1"]) simp
  then show ?thesis using paillier_dec_enc [OF paillier_key_ref, of 4 2] by (simp add: n)
qed

text \<open>
  C18: the homomorphism. The product of two ciphertexts decrypts to the sum of the messages, and a
  ciphertext raised to \<open>t\<close> decrypts to the message times \<open>t\<close>, both modulo \<open>n\<close>.
\<close>

theorem paillier_homomorphic:
  assumes "paillier_key cp pl" "paillier_cipher pl m1 c1" "paillier_cipher pl m2 c2" "0 \<le> t"
  shows "paillier_dec cp pl (a_times_b_mod_c cp c1 c2 (pl_n2 pl)) = Inr ((m1 + m2) mod pl_n pl) \<and>
    paillier_dec cp pl (a_exp_b_mod_c cp c1 t (pl_n2 pl)) = Inr (t * m1 mod pl_n pl)"
  using assms by (auto intro!: pail.decrypt_cipher pail.combine_cipher pail.scale_cipher)

theorem paillier_homomorphic_witness:
  "\<exists>c. paillier_cipher (paillier_generate ref_cryptopp 3 5) 4 c \<and>
     paillier_dec ref_cryptopp (paillier_generate ref_cryptopp 3 5)
       (a_times_b_mod_c ref_cryptopp c c (pl_n2 (paillier_generate ref_cryptopp 3 5))) = Inr 8 \<and>
     paillier_dec ref_cryptopp (paillier_generate ref_cryptopp 3 5)
       (a_exp_b_mod_c ref_cryptopp c 3 (pl_n2 (paillier_generate ref_cryptopp 3 5))) = Inr 12"
proof -
  have n: "pl_n (paillier_generate ref_cryptopp 3 5) = 15" by (simp add: paillier_generate_def Let_def)
  show ?thesis
    using paillier_homomorphic [OF paillier_key_ref paillier_cipher_ref paillier_cipher_ref, of 3]
      paillier_cipher_ref by (intro exI) (auto simp: n)
qed

text \<open>
  The random number of an encryption is drawn from a range that includes \<open>n\<close> itself. With
  that draw the ciphertext is 0 and decryption refuses it.
\<close>

theorem paillier_enc_degenerate:
  assumes "paillier_key cp pl" "0 \<le> m" "m < pl_n pl"
  shows "paillier_enc cp pl (pl_n pl) m = Inr 0 \<and>
    paillier_dec cp pl 0 = Inl (PaillierException ''c <= 0 || c >= n2'')"
proof -
  note f = paillier_key_fields [OF assms(1)]
  have laws: "modular_laws cp" using assms(1) by (simp add: paillier_key_def)
  have "pl_p pl \<noteq> -1" "pl_q pl \<noteq> -1" using f(6,7) by simp_all
  moreover have "pl_n2 pl dvd pl_n pl ^ nat (pl_n pl)"
  proof -
    have "pl_n pl ^ 2 dvd pl_n pl ^ nat (pl_n pl)" using f(8) by (intro le_imp_power_dvd) simp
    then show ?thesis by (simp add: f(2) power2_eq_square)
  qed
  ultimately show ?thesis
    using f(2,8) assms(2,3) laws by (simp add: paillier_enc_def paillier_dec_def lib_laws dvd_imp_mod_0)
qed

theorem paillier_enc_degenerate_witness:
  "paillier_enc ref_cryptopp (paillier_generate ref_cryptopp 3 5) 15 4 = Inr 0"
  using paillier_enc_degenerate [OF paillier_key_ref, of 4]
  by (simp add: paillier_generate_def Let_def)

end
