(* ===== verification/Shared_Signature.thy ===== *)
theory Shared_Signature
  imports Elliptic_Curve Paillier Protocol
begin

text \<open>
  shared_signature/shared_sig.h and shared_sig.cpp: two parties that share the ECDSA key
  \<open>d = ds * db\<close> sign together. \<open>S\<close> holds \<open>ds\<close> and the Paillier key, \<open>B\<close> holds \<open>db\<close> and works on the
  encryption of \<open>ds\<close>. The numbers both draw are arguments, bundled in the records \<open>key_draw\<close> and
  \<open>sig_draw\<close>.
\<close>

section \<open>Messages and verification\<close>

text \<open>\<open>Integer(m, count)\<close> reads \<open>count\<close> bytes from the pointer, whatever the length of the buffer.\<close>

definition read_integer :: "cryptopp \<Rightarrow> byte list \<Rightarrow> nat \<Rightarrow> exn + int" where
  "read_integer cp m count =
     (if count \<le> length m then Inr (decode_bytes cp (take count m)) else Inl Undefined)"

definition hash_m_to_int :: "cryptopp \<Rightarrow> byte list \<Rightarrow> nat \<Rightarrow> exn + int" where
  "hash_m_to_int cp m ret_byte_count =
     (if length m \<noteq> 32 then Inl (ProtocolException ''m_len != sha digest size'')
      else read_integer cp m ret_byte_count)"

definition m_to_int :: "cryptopp \<Rightarrow> byte list \<Rightarrow> nat \<Rightarrow> exn + int" where
  "m_to_int cp m ret_byte_count = (let h = sha256_digest cp m in read_integer cp h ret_byte_count)"

definition verify_signature :: "cryptopp \<Rightarrow> ec \<Rightarrow> ec_point \<Rightarrow> byte list \<Rightarrow> int \<Rightarrow> int \<Rightarrow> exn + bool" where
  "verify_signature cp ec Q message r s =
     (let G = ec_generator ec; n = ec_order ec
      in sum_then (hash_m_to_int cp message (byte_count cp n)) (\<lambda>z.
         if Q = Identity then Inr False
         else if \<not> ec_multiply ec n Q = Identity then Inr False
         else if r \<le> 0 \<or> r \<ge> n then Inr False
         else if s \<le> 0 \<or> s \<ge> n then Inr False
         else
           let w = inverse_mod cp s n;
               u1 = a_times_b_mod_c cp z w n;
               u2 = a_times_b_mod_c cp r w n;
               P2 = ec_add ec (ec_multiply ec u1 G) (ec_multiply ec u2 Q)
           in if x_coord P2 \<noteq> r then Inr False else Inr True))"

definition encode_signature :: "cryptopp \<Rightarrow> int \<Rightarrow> int \<Rightarrow> byte list" where
  "encode_signature cp r s = encode_bytes cp r 32 @ encode_bytes cp s 32"

section \<open>The party S\<close>

record share_s =
  S_curve :: ec
  S_data :: "byte list"
  S_ds :: int
  S_ks :: int
  S_Qs :: ec_point
  S_Qb :: ec_point
  S_Q :: ec_point
  S_Ks :: ec_point
  S_paillier :: paillier
  S_cs :: int
  S_r :: int
  S_s :: int

text \<open>
  The constructor: the primes of the Paillier key are drawn with \<open>S_paillier_bits\<close> bits. A modulus
  that is too short is only reported.
\<close>

definition S_paillier_bits :: "cryptopp \<Rightarrow> ec \<Rightarrow> nat" where
  "S_paillier_bits cp ec = 2 * bit_count cp (ec_order ec) + 3"

definition S_new :: "cryptopp \<Rightarrow> ec \<Rightarrow> int \<Rightarrow> int \<Rightarrow> exn + share_s" where
  "S_new cp ec p q =
     (let pl = paillier_generate cp p q
      in sum_then (paillier_get_n pl) (\<lambda>_.
         Inr \<lparr>S_curve = ec, S_data = [], S_ds = 0, S_ks = 0, S_Qs = Identity, S_Qb = Identity,
              S_Q = Identity, S_Ks = Identity, S_paillier = pl, S_cs = 0, S_r = 0, S_s = 0\<rparr>))"

text \<open>The members that read one field.\<close>

definition S_get_data :: "share_s \<Rightarrow> byte list" where
  [accessors, simp]: "S_get_data S = S_data S"

definition S_get_ds :: "share_s \<Rightarrow> int" where
  [accessors, simp]: "S_get_ds S = S_ds S"

definition S_get_Qs :: "share_s \<Rightarrow> ec_point" where
  [accessors, simp]: "S_get_Qs S = S_Qs S"

definition S_get_Qb :: "share_s \<Rightarrow> ec_point" where
  [accessors, simp]: "S_get_Qb S = S_Qb S"

definition S_get_Q :: "share_s \<Rightarrow> ec_point" where
  [accessors, simp]: "S_get_Q S = S_Q S"

definition S_get_Ks :: "share_s \<Rightarrow> ec_point" where
  [accessors, simp]: "S_get_Ks S = S_Ks S"

definition S_get_cs :: "share_s \<Rightarrow> int" where
  [accessors, simp]: "S_get_cs S = S_cs S"

definition S_get_r :: "share_s \<Rightarrow> int" where
  [accessors, simp]: "S_get_r S = S_r S"

definition S_get_s :: "share_s \<Rightarrow> int" where
  [accessors, simp]: "S_get_s S = S_s S"

definition S_get_data_length :: "share_s \<Rightarrow> exn + nat" where
  "S_get_data_length S =
     (if length (S_data S) = 0 then Inl (ProtocolException ''Data is empty!'')
      else Inr (length (S_data S)))"

definition S_set_data :: "byte list \<Rightarrow> share_s \<Rightarrow> share_s" where
  "S_set_data d S = S\<lparr>S_data := d\<rparr>"

definition S_get_paillier_n :: "share_s \<Rightarrow> exn + int" where
  "S_get_paillier_n S = paillier_get_n (S_paillier S)"

definition S_get_paillier_g :: "share_s \<Rightarrow> exn + int" where
  "S_get_paillier_g S = paillier_get_g (S_paillier S)"

definition S_get_signature :: "cryptopp \<Rightarrow> share_s \<Rightarrow> byte list" where
  "S_get_signature cp S = encode_signature cp (S_r S) (S_s S)"

definition S_cheat :: "int \<Rightarrow> int \<Rightarrow> share_s \<Rightarrow> share_s" where
  "S_cheat draw_r draw_s S = S\<lparr>S_r := draw_r, S_s := draw_s\<rparr>"

definition S_start_init :: "int \<Rightarrow> share_s \<Rightarrow> share_s" where
  "S_start_init ds S = S\<lparr>S_ds := ds, S_Qs := ec_multiply (S_curve S) ds (ec_generator (S_curve S))\<rparr>"

definition S_finish_init :: "ec_point \<Rightarrow> share_s \<Rightarrow> share_s" where
  "S_finish_init Qb S = S\<lparr>S_Qb := Qb, S_Q := ec_multiply (S_curve S) (S_ds S) Qb\<rparr>"

definition S_start_sig :: "cryptopp \<Rightarrow> int \<Rightarrow> int \<Rightarrow> (share_s, unit) comp" where
  "S_start_sig cp ks r_enc = (\<lambda>S.
     let S1 = S\<lparr>S_ks := ks, S_Ks := ec_multiply (S_curve S) ks (ec_generator (S_curve S))\<rparr>
     in case paillier_enc cp (S_paillier S1) r_enc (S_ds S1) of
          Inl e \<Rightarrow> (Inl e, S1)
        | Inr c \<Rightarrow> (Inr (), S1\<lparr>S_cs := c\<rparr>))"

definition low_s :: "int \<Rightarrow> int \<Rightarrow> int" where
  "low_s n s = (if s > n - s then n - s else s)"

definition S_finish_sig :: "cryptopp \<Rightarrow> ec \<Rightarrow> int \<Rightarrow> int \<Rightarrow> (share_s, unit) comp" where
  "S_finish_sig cp ec r cb = (\<lambda>S.
     let n = ec_order (S_curve S); S1 = S\<lparr>S_r := r\<rparr>
     in case paillier_dec cp (S_paillier S1) cb of
          Inl e \<Rightarrow> (Inl e, S1)
        | Inr d \<Rightarrow>
            let s2 = d mod n;
                s = a_times_b_mod_c cp (inverse_mod cp (S_ks S1) n) s2 n;
                S2 = S1\<lparr>S_s := s\<rparr>
            in if s = 0 then (Inl (ProtocolException ''ERR s==0 restart protocol''), S2)
               else
                 let S3 = S2\<lparr>S_s := low_s n s\<rparr>
                 in case sum_then (S_get_data_length S3) (\<lambda>_.
                           verify_signature cp ec (S_Q S3) (S_data S3) r (S_s S3)) of
                      Inl e \<Rightarrow> (Inl e, S3)
                    | Inr result \<Rightarrow>
                        if \<not> result then (Inl (ProtocolException ''Invalid signature generated!''), S3)
                        else (Inr (), S3))"

section \<open>The party B\<close>

record share_b =
  B_curve :: ec
  B_db :: int
  B_kb :: int
  B_Qs :: ec_point
  B_Qb :: ec_point
  B_Q :: ec_point
  B_paillier :: paillier
  B_K :: ec_point
  B_r :: int
  B_cb :: int
  B_data :: "byte list"
  B_open_verified :: bool

text \<open>The constructor leaves \<open>open_verified\<close> uninitialised: it is the argument \<open>ov0\<close>.\<close>

definition B_new :: "ec \<Rightarrow> bool \<Rightarrow> int \<Rightarrow> int \<Rightarrow> exn + share_b" where
  "B_new ec ov0 paillier_n paillier_g =
     (let n = ec_order ec; pl = paillier_client paillier_n paillier_g
      in sum_then (paillier_get_n pl) (\<lambda>pn.
         if pn \<le> 2 * n * n * n * n then Inl (ProtocolException ''too short paillier'')
         else Inr \<lparr>B_curve = ec, B_db = 0, B_kb = 0, B_Qs = Identity, B_Qb = Identity,
                   B_Q = Identity, B_paillier = pl, B_K = Identity, B_r = 0, B_cb = 0,
                   B_data = [], B_open_verified = ov0\<rparr>))"

text \<open>The members that read one field.\<close>

definition B_get_Qs :: "share_b \<Rightarrow> ec_point" where
  [accessors, simp]: "B_get_Qs B = B_Qs B"

definition B_get_Qb :: "share_b \<Rightarrow> ec_point" where
  [accessors, simp]: "B_get_Qb B = B_Qb B"

definition B_get_Q :: "share_b \<Rightarrow> ec_point" where
  [accessors, simp]: "B_get_Q B = B_Q B"

definition B_get_db :: "share_b \<Rightarrow> int" where
  [accessors, simp]: "B_get_db B = B_db B"

definition B_get_r :: "share_b \<Rightarrow> int" where
  [accessors, simp]: "B_get_r B = B_r B"

definition B_get_cb :: "share_b \<Rightarrow> int" where
  [accessors, simp]: "B_get_cb B = B_cb B"

definition B_get_data :: "share_b \<Rightarrow> byte list" where
  [accessors, simp]: "B_get_data B = B_data B"

definition B_get_data_length :: "share_b \<Rightarrow> nat" where
  [accessors, simp]: "B_get_data_length B = length (B_data B)"

definition B_get_n :: "share_b \<Rightarrow> int" where
  "B_get_n B = ec_order (B_curve B)"

definition B_set_data :: "byte list \<Rightarrow> share_b \<Rightarrow> share_b" where
  "B_set_data d B = B\<lparr>B_data := d\<rparr>"

definition B_setOpenVerified :: "bool \<Rightarrow> share_b \<Rightarrow> share_b" where
  "B_setOpenVerified val B = B\<lparr>B_open_verified := val\<rparr>"

definition B_getOpenVerified :: "share_b \<Rightarrow> bool" where
  "B_getOpenVerified B = B_open_verified B"

definition B_start_init :: "int \<Rightarrow> share_b \<Rightarrow> share_b" where
  "B_start_init db B = B\<lparr>B_db := db, B_Qb := ec_multiply (B_curve B) db (ec_generator (B_curve B))\<rparr>"

definition B_finish_init :: "ec_point \<Rightarrow> share_b \<Rightarrow> share_b" where
  "B_finish_init Qs B = B\<lparr>B_Qs := Qs, B_Q := ec_multiply (B_curve B) (B_db B) Qs\<rparr>"

section \<open>The numbers drawn\<close>

record key_draw =
  draw_ds :: int
  draw_db :: int

record sig_draw =
  draw_ks :: int
  draw_rs :: int
  draw_kb :: int
  draw_r1 :: int
  draw_u :: int
  draw_r2 :: int

text \<open>B's turn, in the order of the code; every assignment made before an exception stays.\<close>

definition B_cont_sig ::
    "cryptopp \<Rightarrow> sig_draw \<Rightarrow> ec_point \<Rightarrow> int \<Rightarrow> byte list \<Rightarrow> (share_b, unit) comp" where
  "B_cont_sig cp dr Ks cs m = (\<lambda>B.
     let n = ec_order (B_curve B);
         kb = draw_kb dr;
         K = ec_multiply (B_curve B) kb Ks;
         r = x_coord K mod n;
         B1 = B\<lparr>B_kb := kb, B_K := K, B_r := r\<rparr>
     in if r = 0 then (Inl (ProtocolException ''r == 0''), B1)
        else
          case sum_then (hash_m_to_int cp m (byte_count cp n)) (\<lambda>hi.
               sum_then (paillier_enc cp (B_paillier B1) (draw_r1 dr)
                           (a_times_b_mod_c cp (inverse_mod cp kb n) hi n)) (\<lambda>c1.
               sum_then (paillier_get_n2 (B_paillier B1)) (\<lambda>n2.
                 let t = a_times_b_mod_c cp (a_times_b_mod_c cp (inverse_mod cp kb n) r n) (B_db B1) n;
                     c2 = a_times_b_mod_c cp c1 (a_exp_b_mod_c cp cs t n2) n2;
                     u = draw_u dr
                 in sum_then (paillier_enc cp (B_paillier B1) (draw_r2 dr) (u * n)) (\<lambda>c3.
                    Inr (a_times_b_mod_c cp c2 c3 n2))))) of
            Inl e \<Rightarrow> (Inl e, B1)
          | Inr cb \<Rightarrow> (Inr (), B1\<lparr>B_cb := cb\<rparr>))"

section \<open>The protocol\<close>

definition ss_init :: "key_draw \<Rightarrow> (share_s, share_b) step" where
  "ss_init dr = (\<lambda>(S, B).
     let S1 = S_start_init (draw_ds dr) S;
         B1 = B_start_init (draw_db dr) B;
         S2 = S_finish_init (B_get_Qb B1) S1;
         B2 = B_finish_init (S_get_Qs S2) B1
     in if \<not> S_get_Q S2 = B_get_Q B2 then (Inl (ProtocolException ''Mismatching Q''), S2, B2)
        else (Inr (), S2, B2))"

definition ss_exec :: "cryptopp \<Rightarrow> ec \<Rightarrow> sig_draw \<Rightarrow> (share_s, share_b) step" where
  "ss_exec cp ec dr =
     seq (on_first (S_start_sig cp (draw_ks dr) (draw_rs dr)))
       (\<lambda>(S, B). seq (on_second (B_cont_sig cp dr (S_get_Ks S) (S_get_cs S) (B_get_data B)))
          (\<lambda>(S, B). on_first (S_finish_sig cp ec (B_get_r B) (B_get_cb B)) (S, B)) (S, B))"

definition ss_open :: "cryptopp \<Rightarrow> ec \<Rightarrow> (share_s, share_b) step" where
  "ss_open cp ec = (\<lambda>(S, B).
     let signature = S_get_signature cp S
     in case verify_signature cp ec (B_get_Q B) (B_get_data B) (S_get_r S) (S_get_s S) of
          Inl e \<Rightarrow> (Inl e, S, B)
        | Inr result \<Rightarrow> (Inr (), S, B_setOpenVerified result B))"

section \<open>Verification as an equation between discrete logarithms\<close>

text \<open>What the protocol assumes of the library and of the curve.\<close>

definition curve_setup :: "cryptopp \<Rightarrow> ec \<Rightarrow> bool" where
  "curve_setup cp ec \<longleftrightarrow> modular_laws cp \<and> size_laws cp \<and> encoding_laws cp \<and> ec_laws ec \<and>
     byte_count cp (ec_order ec) \<le> 32"

text \<open>The integer a message stands for.\<close>

definition message_int :: "cryptopp \<Rightarrow> ec \<Rightarrow> byte list \<Rightarrow> int" where
  "message_int cp ec m = decode_bytes cp (take (byte_count cp (ec_order ec)) m)"

lemma curve_setup_laws:
  assumes "curve_setup cp ec"
  shows "modular_laws cp" "size_laws cp" "encoding_laws cp" "ec_laws ec"
    "byte_count cp (ec_order ec) \<le> 32" "1 < ec_order ec" "prime_integer (ec_order ec)"
  using assms by (simp_all add: curve_setup_def ec_order_gt_1 ec_order_prime)

lemma message_int_nonneg: "curve_setup cp ec \<Longrightarrow> 0 \<le> message_int cp ec m"
  by (simp add: message_int_def curve_setup_def decode_bounds)

lemma hash_m_to_int_message:
  "curve_setup cp ec \<Longrightarrow> length m = 32 \<Longrightarrow>
     hash_m_to_int cp m (byte_count cp (ec_order ec)) = Inr (message_int cp ec m)"
  by (simp add: hash_m_to_int_def read_integer_def message_int_def curve_setup_def)

lemma verify_signature_positive: "verify_signature cp ec Q m r s = Inr True \<Longrightarrow> 0 < r \<and> 0 < s"
  by (auto simp: verify_signature_def Let_def sum_then_Inr split: if_splits)

text \<open>The equation the checks come down to when the public key is a multiple of the generator.\<close>

lemma verify_signature_multiple:
  fixes w :: int
  assumes cset: "curve_setup cp ec" and m: "length m = 32"
    and d: "0 \<le> d" "\<not> ec_order ec dvd d"
    and r: "0 < r" "r < ec_order ec" and s: "0 < s" "s < ec_order ec"
  defines "w \<equiv> inverse_mod cp s (ec_order ec)"
  shows "verify_signature cp ec (ec_multiply ec d (ec_generator ec)) m r s =
    Inr (x_coord (ec_multiply ec (message_int cp ec m * w mod ec_order ec + (r * w mod ec_order ec) * d)
      (ec_generator ec)) = r)"
proof -
  let ?n = "ec_order ec" and ?z = "message_int cp ec m"
  note laws = curve_setup_laws [OF cset]
  have u: "0 \<le> ?z * w mod ?n" "0 \<le> r * w mod ?n" using laws(6) by simp_all
  then have "0 \<le> (r * w mod ?n) * d" using d(1) by simp
  with u d show ?thesis
    using laws(1,4,6) r s
    by (simp add: verify_signature_def hash_m_to_int_message [OF cset m] Let_def lib_laws
        ec_multiply_identity_iff ec_multiply_multiply ec_add_multiply w_def)
qed

text \<open>A pair built from a nonce \<open>k\<close> verifies exactly if \<open>r\<close> is the first coordinate of its point.\<close>

lemma verify_signature_nonce:
  assumes cset: "curve_setup cp ec" and m: "length m = 32"
    and d: "0 \<le> d" "\<not> ec_order ec dvd d"
    and r: "0 < r" "r < ec_order ec" and s: "0 < s" "s < ec_order ec"
    and k: "0 \<le> k"
    and eq: "ec_order ec dvd s * k - (message_int cp ec m + r * d) \<or>
      ec_order ec dvd s * k + (message_int cp ec m + r * d)"
  shows "verify_signature cp ec (ec_multiply ec d (ec_generator ec)) m r s =
    Inr (x_coord (ec_multiply ec k (ec_generator ec)) = r)"
proof -
  let ?n = "ec_order ec" and ?z = "message_int cp ec m"
  define w where "w = inverse_mod cp s ?n"
  note laws = curve_setup_laws [OF cset]
  have "\<not> ?n dvd s" using s by (simp add: zdvd_not_zless)
  then have "coprime s ?n" using prime_integer_coprime [OF laws(7)] by (simp add: coprime_commute)
  then have "s * w mod ?n = 1" using inverse_mod_inverse(3) [OF laws(1,6)] by (simp add: w_def)
  then obtain c where c: "s * w = 1 + ?n * c"
    by (metis mult_div_mod_eq add.commute)
  obtain c1 c2 where c1: "?z * w mod ?n = ?z * w - ?n * c1" and c2: "r * w mod ?n = r * w - ?n * c2"
    by (metis minus_mult_div_eq_mod)
  let ?e = "?z * w mod ?n + (r * w mod ?n) * d"
  have e: "?e = w * (?z + r * d) - ?n * (c1 + c2 * d)"
    unfolding c1 c2 by (simp add: algebra_simps)
  from eq have "?n dvd ?e - k \<or> ?n dvd ?e + k"
  proof
    assume "?n dvd s * k - (?z + r * d)"
    then obtain c4 where c4: "?z + r * d = s * k - ?n * c4" by (metis dvdE diff_diff_eq2 add_diff_cancel_left')
    have "?e - k = (s * w) * k - k - ?n * (w * c4 + c1 + c2 * d)"
      unfolding e c4 by (simp add: algebra_simps)
    also have "\<dots> = ?n * (c * k - (w * c4 + c1 + c2 * d))" unfolding c by (simp add: algebra_simps)
    finally show ?thesis by simp
  next
    assume "?n dvd s * k + (?z + r * d)"
    then obtain c4 where c4: "?z + r * d = ?n * c4 - s * k" by (metis dvdE add_diff_cancel_left')
    have "?e + k = ?n * (w * c4 - c1 - c2 * d) - (s * w) * k + k"
      unfolding e c4 by (simp add: algebra_simps)
    also have "\<dots> = ?n * (w * c4 - c1 - c2 * d - c * k)" unfolding c by (simp add: algebra_simps)
    finally show ?thesis by simp
  qed
  moreover have "0 \<le> ?e" using laws(6) d(1) by simp
  ultimately have "x_coord (ec_multiply ec ?e (ec_generator ec)) = x_coord (ec_multiply ec k (ec_generator ec))"
    using x_coord_same [OF laws(4) _ k, of ?e] by simp
  then show ?thesis
    using verify_signature_multiple [OF cset m d r s] by (simp add: w_def)
qed

section \<open>The signing protocol between honest parties\<close>

text \<open>The numbers drawn are in their ranges and units where a unit is needed.\<close>

definition draws_ok :: "ec \<Rightarrow> int \<Rightarrow> key_draw \<Rightarrow> sig_draw \<Rightarrow> bool" where
  "draws_ok ec pn kd sd \<longleftrightarrow>
     draw_ds kd \<in> {1..ec_order ec - 1} \<and> draw_db kd \<in> {1..ec_order ec - 1} \<and>
     draw_ks sd \<in> {1..ec_order ec - 1} \<and> draw_kb sd \<in> {1..ec_order ec - 1} \<and>
     draw_u sd \<in> {0..ec_order ec * ec_order ec - 1} \<and>
     coprime (draw_rs sd) pn \<and> coprime (draw_r1 sd) pn \<and> coprime (draw_r2 sd) pn"

text \<open>The parties after their constructors, with one message of 32 bytes.\<close>

definition parties_ok :: "cryptopp \<Rightarrow> ec \<Rightarrow> byte list \<Rightarrow> share_s \<Rightarrow> share_b \<Rightarrow> bool" where
  "parties_ok cp ec m S B \<longleftrightarrow>
     S_curve S = ec \<and> B_curve B = ec \<and> paillier_key cp (S_paillier S) \<and>
     B_paillier B = paillier_client (pl_n (S_paillier S)) (pl_g (S_paillier S)) \<and>
     2 * ec_order ec * ec_order ec * ec_order ec * ec_order ec < pl_n (S_paillier S) \<and>
     S_data S = m \<and> B_data B = m \<and> length m = 32"

text \<open>The first coordinate of the nonce point, \<open>r\<close>, and the key both parties share.\<close>

definition nonce_x :: "ec \<Rightarrow> sig_draw \<Rightarrow> int" where
  "nonce_x ec sd = x_coord (ec_multiply ec (draw_kb sd * draw_ks sd) (ec_generator ec))"

definition nonce_r :: "ec \<Rightarrow> sig_draw \<Rightarrow> int" where
  "nonce_r ec sd = nonce_x ec sd mod ec_order ec"

definition shared_key :: "key_draw \<Rightarrow> int" where
  "shared_key kd = draw_ds kd * draw_db kd"

lemma parties_ok_bounds:
  assumes "curve_setup cp ec" "parties_ok cp ec m S B"
  shows "ec_order ec < pl_n (S_paillier S)"
    "0 \<le> a \<Longrightarrow> a < ec_order ec \<Longrightarrow> 0 \<le> t \<Longrightarrow> t < ec_order ec \<Longrightarrow> 0 \<le> d \<Longrightarrow> d < ec_order ec \<Longrightarrow>
     0 \<le> u \<Longrightarrow> u \<le> ec_order ec * ec_order ec - 1 \<Longrightarrow>
     u * ec_order ec < pl_n (S_paillier S) \<and> a + t * d + u * ec_order ec < pl_n (S_paillier S)"
proof -
  let ?n = "ec_order ec"
  have n: "1 \<le> ?n" using curve_setup_laws(6) [OF assms(1)] by simp
  have big: "2 * (?n * ?n * ?n * ?n) < pl_n (S_paillier S)"
    using assms(2) by (simp add: parties_ok_def mult.assoc)
  have p2: "?n \<le> ?n * ?n" using mult_left_mono [of 1 ?n ?n] n by simp
  have p3: "?n * ?n \<le> ?n * ?n * ?n" using mult_left_mono [of 1 ?n "?n * ?n"] n by simp
  have p4: "?n * ?n * ?n \<le> ?n * ?n * ?n * ?n" using mult_left_mono [of 1 ?n "?n * ?n * ?n"] n by simp
  show "?n < pl_n (S_paillier S)" using n p2 p3 p4 big by linarith
  assume b: "0 \<le> a" "a < ?n" "0 \<le> t" "t < ?n" "0 \<le> d" "d < ?n" "0 \<le> u" "u \<le> ?n * ?n - 1"
  have u: "u * ?n \<le> (?n * ?n - 1) * ?n" using b n by (intro mult_right_mono) simp_all
  have t: "t * d \<le> (?n - 1) * ?n" using b n by (intro mult_mono) simp_all
  have "u * ?n \<le> ?n * ?n * ?n - ?n" "t * d \<le> ?n * ?n - ?n" using u t by (simp_all add: algebra_simps)
  then show "u * ?n < pl_n (S_paillier S) \<and> a + t * d + u * ?n < pl_n (S_paillier S)"
    using b(2) n p2 p3 p4 big by linarith
qed

lemma ss_init_run:
  assumes cset: "curve_setup cp ec" and "S_curve S = ec" "B_curve B = ec"
    and "0 \<le> draw_ds kd" "0 \<le> draw_db kd"
  defines "Q \<equiv> ec_multiply ec (shared_key kd) (ec_generator ec)"
  shows "ss_init kd (S, B) =
    (Inr (), S_finish_init (ec_multiply ec (draw_db kd) (ec_generator ec)) (S_start_init (draw_ds kd) S),
     B_finish_init (ec_multiply ec (draw_ds kd) (ec_generator ec)) (B_start_init (draw_db kd) B))"
    and "S_Q (fst (snd (ss_init kd (S, B)))) = Q" and "B_Q (snd (snd (ss_init kd (S, B)))) = Q"
  using assms(2-5) curve_setup_laws(4) [OF cset]
  by (simp_all add: ss_init_def Let_def S_finish_init_def S_start_init_def B_finish_init_def
      B_start_init_def ec_multiply_multiply Q_def shared_key_def mult.commute)

text \<open>B's message: an encryption of a number congruent to \<open>(z + r * d) / kb\<close>.\<close>

lemma B_cont_sig_run:
  assumes cset: "curve_setup cp ec" and ok: "parties_ok cp ec m S B"
    and dr: "draws_ok ec (pl_n (S_paillier S)) kd sd" and db: "B_db B = draw_db kd"
    and cs: "paillier_cipher (S_paillier S) (draw_ds kd) cs"
    and x: "nonce_r ec sd \<noteq> 0"
  shows "\<exists>cb M. B_cont_sig cp sd (ec_multiply ec (draw_ks sd) (ec_generator ec)) cs m B =
      (Inr (), B\<lparr>B_kb := draw_kb sd, B_K := ec_multiply ec (draw_kb sd) (ec_multiply ec (draw_ks sd) (ec_generator ec)),
                B_r := nonce_r ec sd, B_cb := cb\<rparr>)
    \<and> paillier_dec cp (S_paillier S) cb = Inr M \<and> 0 \<le> M
    \<and> ec_order ec dvd M * draw_kb sd - (message_int cp ec m + nonce_r ec sd * shared_key kd)"
proof -
  let ?n = "ec_order ec" and ?pl = "S_paillier S" and ?z = "message_int cp ec m"
  let ?kb = "draw_kb sd" and ?r = "nonce_r ec sd"
  note laws = curve_setup_laws [OF cset]
  define W where "W = inverse_mod cp ?kb ?n"
  define a where "a = W * ?z mod ?n"
  define t where "t = (W * ?r mod ?n) * draw_db kd mod ?n"
  have key: "paillier_key cp ?pl" and len: "length m = 32" and curve: "B_curve B = ec"
    and pub: "B_paillier B = paillier_client (pl_n ?pl) (pl_g ?pl)"
    using ok by (simp_all add: parties_ok_def)
  have n2: "paillier_get_n2 (B_paillier B) = Inr (pl_n2 ?pl)"
    using paillier_key_fields(2,8) [OF key] by (simp add: pub paillier_get_n2_def paillier_client_def)
  have b: "0 \<le> a" "a < ?n" "0 \<le> t" "t < ?n" using laws(6) by (simp_all add: a_def t_def)
  have d: "0 \<le> draw_ds kd" "draw_ds kd < ?n" and u: "0 \<le> draw_u sd" "draw_u sd \<le> ?n * ?n - 1"
    and cop: "coprime (draw_r1 sd) (pl_n ?pl)" "coprime (draw_r2 sd) (pl_n ?pl)"
    and kb: "0 < ?kb" "?kb < ?n" "0 \<le> ?kb" "0 \<le> draw_ks sd"
    using dr by (simp_all add: draws_ok_def)
  note N = parties_ok_bounds [OF cset ok]
  note big = N(2) [OF b d u]
  have un: "0 \<le> draw_u sd * ?n" using u laws(6) by simp
  obtain c1 where c1: "paillier_enc cp ?pl (draw_r1 sd) a = Inr c1" "paillier_cipher ?pl a c1"
    using paillier_key_enc [OF key cop(1) b(1)] b(2) N(1) by auto
  obtain c3 where c3: "paillier_enc cp ?pl (draw_r2 sd) (draw_u sd * ?n) = Inr c3"
    "paillier_cipher ?pl (draw_u sd * ?n) c3"
    using paillier_key_enc [OF key cop(2) un] big by auto
  let ?cb = "a_times_b_mod_c cp (a_times_b_mod_c cp c1 (a_exp_b_mod_c cp cs t (pl_n2 ?pl)) (pl_n2 ?pl)) c3 (pl_n2 ?pl)"
  let ?M = "a + t * draw_ds kd + draw_u sd * ?n"
  have M: "0 \<le> ?M" using b(1,3) d(1) un by simp
  have dec: "paillier_dec cp ?pl ?cb = Inr ?M"
    using pail.decrypt_linear [OF key c1(2) cs c3(2) b(3)] M big by simp
  have rx: "x_coord (ec_multiply ec ?kb (ec_multiply ec (draw_ks sd) (ec_generator ec))) mod ?n = ?r"
    using ec_multiply_multiply [OF laws(4) kb(3,4)] by (simp add: nonce_r_def nonce_x_def)
  have run: "B_cont_sig cp sd (ec_multiply ec (draw_ks sd) (ec_generator ec)) cs m B =
      (Inr (), B\<lparr>B_kb := ?kb, B_K := ec_multiply ec ?kb (ec_multiply ec (draw_ks sd) (ec_generator ec)),
                B_r := ?r, B_cb := ?cb\<rparr>)"
    using x laws(1,6) c1(1) c3(1) n2
    by (simp add: B_cont_sig_def Let_def curve rx hash_m_to_int_message [OF cset len] pub
        paillier_client_enc [OF key] lib_laws db flip: W_def a_def t_def)
  have "\<not> ?n dvd ?kb" using kb by (simp add: zdvd_not_zless)
  then have "coprime ?kb ?n" using prime_integer_coprime [OF laws(7)] coprime_commute by blast
  then have "?kb * W mod ?n = 1" using inverse_mod_inverse(3) [OF laws(1,6)] by (simp add: W_def)
  then obtain c where c: "?kb * W = 1 + ?n * c" by (metis mult_div_mod_eq add.commute)
  obtain e1 where e1: "a = W * ?z - ?n * e1" unfolding a_def by (metis minus_mult_div_eq_mod)
  obtain e2 where e2: "t = (W * ?r mod ?n) * draw_db kd - ?n * e2" unfolding t_def by (metis minus_mult_div_eq_mod)
  obtain e3 where e3: "W * ?r mod ?n = W * ?r - ?n * e3" by (metis minus_mult_div_eq_mod)
  have "?M * ?kb - (?z + ?r * shared_key kd)
      = (?kb * W - 1) * (?z + ?r * shared_key kd)
        + ?n * (draw_u sd * ?kb - e1 * ?kb - (e3 * draw_db kd + e2) * draw_ds kd * ?kb)"
    unfolding e1 e2 e3 shared_key_def by (simp add: algebra_simps)
  then have "?n dvd ?M * ?kb - (?z + ?r * shared_key kd)" unfolding c by simp
  with run dec M show ?thesis by blast
qed

lemma low_s_cases: "low_s n s = s \<and> 2 * s \<le> n \<or> low_s n s = n - s \<and> 2 * low_s n s \<le> n"
  by (auto simp: low_s_def)

lemma low_s_half: "2 * low_s n s \<le> n"
  by (simp add: low_s_def)

text \<open>The congruence a signature solves: the key \<open>d\<close>, the nonce \<open>k\<close> and the message \<open>z\<close> fix \<open>s\<close>.\<close>

definition sig_equation :: "ec \<Rightarrow> int \<Rightarrow> int \<Rightarrow> int \<Rightarrow> int \<Rightarrow> int \<Rightarrow> bool" where
  "sig_equation ec z d k r s \<longleftrightarrow> 0 < s \<and> s < ec_order ec \<and> ec_order ec dvd s * k - (z + r * d)"

lemma S_finish_sig_run:
  assumes cset: "curve_setup cp ec" and S: "S_curve S = ec" "S_data S = m" "length m = 32"
    and Q: "S_Q S = ec_multiply ec d (ec_generator ec)" "0 \<le> d" "\<not> ec_order ec dvd d"
    and M: "paillier_dec cp (S_paillier S) cb = Inr M"
      "ec_order ec dvd M * kb - (message_int cp ec m + r * d)"
    and k: "0 < S_ks S" "S_ks S < ec_order ec" "0 \<le> kb"
    and r: "0 < r" "r < ec_order ec"
    and nz: "\<not> ec_order ec dvd message_int cp ec m + r * d"
  defines "good \<equiv> x_coord (ec_multiply ec (kb * S_ks S) (ec_generator ec)) = r"
  shows "\<exists>s. S_finish_sig cp ec r cb S =
      (if good then Inr () else Inl (ProtocolException ''Invalid signature generated!''), S\<lparr>S_r := r, S_s := s\<rparr>)
    \<and> 0 < s \<and> 2 * s \<le> ec_order ec \<and> verify_signature cp ec (S_Q S) m r s = Inr good
    \<and> (\<exists>s0. sig_equation ec (message_int cp ec m) d (kb * S_ks S) r s0 \<and> s = low_s (ec_order ec) s0)"
proof -
  let ?n = "ec_order ec" and ?z = "message_int cp ec m"
  note laws = curve_setup_laws [OF cset]
  define V where "V = inverse_mod cp (S_ks S) ?n"
  define s0 where "s0 = V * (M mod ?n) mod ?n"
  have "\<not> ?n dvd S_ks S" using k by (simp add: zdvd_not_zless)
  then have "coprime (S_ks S) ?n" using prime_integer_coprime [OF laws(7)] coprime_commute by blast
  then have "S_ks S * V mod ?n = 1" using inverse_mod_inverse(3) [OF laws(1,6)] by (simp add: V_def)
  then obtain c where c: "S_ks S * V = 1 + ?n * c" by (metis mult_div_mod_eq add.commute)
  obtain e1 where e1: "s0 = V * (M mod ?n) - ?n * e1" unfolding s0_def by (metis minus_mult_div_eq_mod)
  obtain e2 where e2: "M mod ?n = M - ?n * e2" by (metis minus_mult_div_eq_mod)
  have "s0 * (kb * S_ks S) - M * kb
      = (S_ks S * V - 1) * ((M - ?n * e2) * kb) - ?n * (e2 * kb + e1 * kb * S_ks S)"
    unfolding e1 e2 by (simp add: algebra_simps)
  then have "?n dvd s0 * (kb * S_ks S) - M * kb" unfolding c by simp
  from dvd_add [OF this M(2)] have eq0: "?n dvd s0 * (kb * S_ks S) - (?z + r * d)"
    by (simp only: add_diff_eq diff_add_cancel)
  have s0: "0 \<le> s0" "s0 < ?n" using laws(6) by (simp_all add: s0_def)
  have "s0 \<noteq> 0"
  proof
    assume "s0 = 0"
    then have "?n dvd - (?z + r * d)" using eq0 by simp
    then show False using nz by (simp only: dvd_minus_iff)
  qed
  let ?s = "low_s ?n s0"
  have s: "0 < ?s" "?s < ?n" "2 * ?s \<le> ?n"
    using low_s_cases [of ?n s0] s0 \<open>s0 \<noteq> 0\<close> by auto
  have eq: "?n dvd ?s * (kb * S_ks S) - (?z + r * d) \<or> ?n dvd ?s * (kb * S_ks S) + (?z + r * d)"
  proof -
    consider "?s = s0" | "?s = ?n - s0" using low_s_cases by blast
    then show ?thesis
    proof cases
      case 1
      then show ?thesis using eq0 by simp
    next
      case 2
      have e: "(?n - s0) * (kb * S_ks S) + (?z + r * d)
          = ?n * (kb * S_ks S) - (s0 * (kb * S_ks S) - (?z + r * d))" by (simp add: algebra_simps)
      have "?n dvd (?n - s0) * (kb * S_ks S) + (?z + r * d)"
        unfolding e by (rule dvd_diff [OF dvd_triv_left eq0])
      then show ?thesis using 2 by simp
    qed
  qed
  have ver: "verify_signature cp ec (S_Q S) m r ?s = Inr good"
    unfolding Q(1) good_def using k
    by (intro verify_signature_nonce [OF cset S(3) Q(2,3) r s(1,2) _ eq]) simp
  have "m \<noteq> []" using S(3) by auto
  have "S_finish_sig cp ec r cb S =
      (if good then Inr () else Inl (ProtocolException ''Invalid signature generated!''), S\<lparr>S_r := r, S_s := ?s\<rparr>)"
    using M(1) S \<open>m \<noteq> []\<close> \<open>s0 \<noteq> 0\<close> ver laws(1,6)
    by (simp add: S_finish_sig_def Let_def S_get_data_length_def lib_laws flip: V_def s0_def)
  moreover have "sig_equation ec ?z d (kb * S_ks S) r s0"
    using s0 \<open>s0 \<noteq> 0\<close> eq0 by (simp add: sig_equation_def)
  ultimately show ?thesis using s ver by blast
qed

text \<open>The parties hold shares of one key and know its public point.\<close>

definition keys_agreed :: "ec \<Rightarrow> key_draw \<Rightarrow> share_s \<Rightarrow> share_b \<Rightarrow> bool" where
  "keys_agreed ec kd S B \<longleftrightarrow>
     S_ds S = draw_ds kd \<and> B_db B = draw_db kd \<and>
     S_Q S = ec_multiply ec (shared_key kd) (ec_generator ec) \<and> B_Q B = S_Q S"

lemma ss_init_agrees:
  assumes cset: "curve_setup cp ec" and "S_curve S = ec" "B_curve B = ec"
    and "0 \<le> draw_ds kd" "0 \<le> draw_db kd"
  shows "\<exists>S' B'. ss_init kd (S, B) = (Inr (), S', B') \<and> keys_agreed ec kd S' B' \<and>
    (\<forall>m. parties_ok cp ec m S' B' = parties_ok cp ec m S B) \<and> S_paillier S' = S_paillier S"
  using ss_init_run [OF assms] assms(4,5)
  by (simp add: keys_agreed_def parties_ok_def S_finish_init_def S_start_init_def B_finish_init_def
      B_start_init_def)

text \<open>The \<open>s\<close> of the joint key and the joint nonce, in its lower half.\<close>

definition joint_s :: "cryptopp \<Rightarrow> ec \<Rightarrow> byte list \<Rightarrow> key_draw \<Rightarrow> sig_draw \<Rightarrow> int \<Rightarrow> bool" where
  "joint_s cp ec m kd sd s \<longleftrightarrow>
     (\<exists>s0. sig_equation ec (message_int cp ec m) (shared_key kd) (draw_kb sd * draw_ks sd) (nonce_r ec sd) s0
        \<and> s = low_s (ec_order ec) s0)"

lemma ss_exec_run:
  assumes cset: "curve_setup cp ec" and ok: "parties_ok cp ec m S B" and ag: "keys_agreed ec kd S B"
    and dr: "draws_ok ec (pl_n (S_paillier S)) kd sd" and r: "nonce_r ec sd \<noteq> 0"
    and nz: "\<not> ec_order ec dvd message_int cp ec m + nonce_r ec sd * shared_key kd"
  defines "good \<equiv> nonce_x ec sd < ec_order ec"
  shows "\<exists>S' B'. ss_exec cp ec sd (S, B) =
      (if good then Inr () else Inl (ProtocolException ''Invalid signature generated!''), S', B')
    \<and> S_r S' = nonce_r ec sd \<and> 0 < S_s S' \<and> 2 * S_s S' \<le> ec_order ec
    \<and> keys_agreed ec kd S' B' \<and> parties_ok cp ec m S' B'
    \<and> verify_signature cp ec (B_Q B') m (S_r S') (S_s S') = Inr good
    \<and> joint_s cp ec m kd sd (S_s S')"
proof -
  let ?n = "ec_order ec" and ?pl = "S_paillier S" and ?G = "ec_generator ec"
  note laws = curve_setup_laws [OF cset]
  have key: "paillier_key cp ?pl" and curve: "S_curve S = ec" and len: "length m = 32"
    and data: "S_data S = m" "B_data B = m"
    using ok by (simp_all add: parties_ok_def)
  have Q: "S_Q S = ec_multiply ec (shared_key kd) ?G" and ds: "S_ds S = draw_ds kd" "B_db B = draw_db kd"
    using ag by (simp_all add: keys_agreed_def)
  have b: "0 < draw_ds kd" "draw_ds kd < ?n" "0 < draw_db kd" "draw_db kd < ?n"
    "0 < draw_ks sd" "draw_ks sd < ?n" "0 \<le> draw_kb sd" "0 \<le> draw_ks sd" "coprime (draw_rs sd) (pl_n ?pl)"
    using dr by (simp_all add: draws_ok_def)
  have "\<not> ?n dvd draw_ds kd" "\<not> ?n dvd draw_db kd" using b by (simp_all add: zdvd_not_zless)
  then have d: "0 \<le> shared_key kd" "\<not> ?n dvd shared_key kd"
    using b laws(7) by (auto simp: shared_key_def dest: prime_integer_dvd_mult)
  have x: "0 \<le> nonce_x ec sd" using laws(4) b by (simp add: nonce_x_def x_coord_nonneg)
  have rr: "0 < nonce_r ec sd" "nonce_r ec sd < ?n"
  proof -
    have "0 \<le> nonce_r ec sd" using laws(6) by (simp add: nonce_r_def)
    then show "0 < nonce_r ec sd" using r by simp
    show "nonce_r ec sd < ?n" using laws(6) by (simp add: nonce_r_def)
  qed
  have good: "nonce_x ec sd = nonce_r ec sd \<longleftrightarrow> good"
    using rr x by (auto simp: good_def nonce_r_def)
  obtain cs where cs: "paillier_enc cp ?pl (draw_rs sd) (draw_ds kd) = Inr cs"
    "paillier_cipher ?pl (draw_ds kd) cs"
    using paillier_key_enc [OF key b(9), of "draw_ds kd"] b parties_ok_bounds(1) [OF cset ok] by auto
  let ?S1 = "S\<lparr>S_ks := draw_ks sd, S_Ks := ec_multiply ec (draw_ks sd) ?G, S_cs := cs\<rparr>"
  have start: "S_start_sig cp (draw_ks sd) (draw_rs sd) S = (Inr (), ?S1)"
    using cs(1) by (simp add: S_start_sig_def Let_def curve ds)
  obtain cb M where cont: "B_cont_sig cp sd (ec_multiply ec (draw_ks sd) ?G) cs m B =
      (Inr (), B\<lparr>B_kb := draw_kb sd, B_K := ec_multiply ec (draw_kb sd) (ec_multiply ec (draw_ks sd) ?G),
                B_r := nonce_r ec sd, B_cb := cb\<rparr>)"
    and M: "paillier_dec cp ?pl cb = Inr M"
      "?n dvd M * draw_kb sd - (message_int cp ec m + nonce_r ec sd * shared_key kd)"
    using B_cont_sig_run [OF cset ok dr ds(2) cs(2) r] by blast
  obtain s where fin: "S_finish_sig cp ec (nonce_r ec sd) cb ?S1 =
      (if good then Inr () else Inl (ProtocolException ''Invalid signature generated!''),
       ?S1\<lparr>S_r := nonce_r ec sd, S_s := s\<rparr>)"
    and s: "0 < s" "2 * s \<le> ?n" "verify_signature cp ec (S_Q S) m (nonce_r ec sd) s = Inr good"
      "joint_s cp ec m kd sd s"
    using S_finish_sig_run [OF cset _ _ len _ d _ M(2) _ _ b(7) rr nz, of ?S1 cb] M(1) b Q curve data
    by (auto simp: good [symmetric] nonce_x_def joint_s_def)
  have "ss_exec cp ec sd (S, B) =
      (if good then Inr () else Inl (ProtocolException ''Invalid signature generated!''),
       ?S1\<lparr>S_r := nonce_r ec sd, S_s := s\<rparr>,
       B\<lparr>B_kb := draw_kb sd, B_K := ec_multiply ec (draw_kb sd) (ec_multiply ec (draw_ks sd) ?G),
         B_r := nonce_r ec sd, B_cb := cb\<rparr>)"
    using start cont fin data by (simp add: ss_exec_def seq_def and_then_def)
  then show ?thesis
    using s ag ok by (simp add: keys_agreed_def parties_ok_def)
qed

section \<open>The contracts of the protocol interface\<close>

text \<open>Everything two honest parties need for one run of the signing protocol.\<close>

definition ss_fresh ::
    "cryptopp \<Rightarrow> ec \<Rightarrow> byte list \<Rightarrow> key_draw \<Rightarrow> sig_draw \<Rightarrow> share_s \<Rightarrow> share_b \<Rightarrow> bool" where
  "ss_fresh cp ec m kd sd S B \<longleftrightarrow>
     curve_setup cp ec \<and> parties_ok cp ec m S B \<and> draws_ok ec (pl_n (S_paillier S)) kd sd \<and>
     nonce_r ec sd \<noteq> 0 \<and> nonce_x ec sd < ec_order ec \<and>
     \<not> ec_order ec dvd message_int cp ec m + nonce_r ec sd * shared_key kd"

definition ss_ready :: "cryptopp \<Rightarrow> ec \<Rightarrow> share_s \<Rightarrow> share_b \<Rightarrow> bool" where
  "ss_ready cp ec S B \<longleftrightarrow> verify_signature cp ec (B_Q B) (B_data B) (S_r S) (S_s S) = Inr True"

definition ss_signed :: "cryptopp \<Rightarrow> ec \<Rightarrow> share_b \<Rightarrow> bool" where
  "ss_signed cp ec B \<longleftrightarrow> (\<exists>r s. verify_signature cp ec (B_Q B) (B_data B) r s = Inr True)"

lemma ss_run:
  assumes fresh: "ss_fresh cp ec m kd sd S B"
  shows "\<exists>S' B'. seq (ss_init kd) (ss_exec cp ec sd) (S, B) = (Inr (), S', B')
    \<and> S_r S' = nonce_r ec sd \<and> 0 < S_s S' \<and> 2 * S_s S' \<le> ec_order ec
    \<and> keys_agreed ec kd S' B' \<and> B_data B' = m \<and> ss_ready cp ec S' B'
    \<and> joint_s cp ec m kd sd (S_s S')"
proof -
  have cset: "curve_setup cp ec" and ok: "parties_ok cp ec m S B"
    and dr: "draws_ok ec (pl_n (S_paillier S)) kd sd"
    and c: "S_curve S = ec" "B_curve B = ec" "0 \<le> draw_ds kd" "0 \<le> draw_db kd"
    using fresh by (simp_all add: ss_fresh_def parties_ok_def draws_ok_def)
  obtain S1 B1 where 1: "ss_init kd (S, B) = (Inr (), S1, B1)" "keys_agreed ec kd S1 B1"
    "parties_ok cp ec m S1 B1" "S_paillier S1 = S_paillier S"
    using ss_init_agrees [OF cset c] ok by blast
  then have "draws_ok ec (pl_n (S_paillier S1)) kd sd" using dr by simp
  from ss_exec_run [OF cset 1(3,2) this] fresh
  obtain S2 B2 where "ss_exec cp ec sd (S1, B1) = (Inr (), S2, B2)" "S_r S2 = nonce_r ec sd"
    "0 < S_s S2" "2 * S_s S2 \<le> ec_order ec" "keys_agreed ec kd S2 B2" "parties_ok cp ec m S2 B2"
    "verify_signature cp ec (B_Q B2) m (S_r S2) (S_s S2) = Inr True"
    "joint_s cp ec m kd sd (S_s S2)"
    by (auto simp: ss_fresh_def)
  then show ?thesis using 1(1)
    by (intro exI [of _ S2] exI [of _ B2]) (simp add: seq_def and_then_def parties_ok_def ss_ready_def)
qed

interpretation sig: honest_protocol
  "\<lambda>i. ss_init (kd i)" "\<lambda>i. ss_exec cp ec (sd i)" "ss_open cp ec" B_getOpenVerified
  "\<lambda>i. ss_fresh cp ec m (kd i) (sd i)" "\<lambda>i. ss_ready cp ec" for cp ec m kd sd
  by unfold_locales
    (use ss_run in \<open>blast, simp add: ss_ready_def ss_open_def B_setOpenVerified_def B_getOpenVerified_def\<close>)

interpretation sigs: sound_opening "ss_open cp ec" B_getOpenVerified "ss_signed cp ec" for cp ec
  by unfold_locales
    (auto simp: ss_open_def ss_signed_def B_setOpenVerified_def B_getOpenVerified_def split: sum.splits)

section \<open>Construction\<close>

lemma parties_new:
  assumes key: "paillier_key cp (paillier_generate cp p q)"
    and big: "2 * ec_order ec * ec_order ec * ec_order ec * ec_order ec < p * q"
  shows "\<exists>S B. S_new cp ec p q = Inr S
    \<and> sum_then (S_get_paillier_n S) (\<lambda>pn. sum_then (S_get_paillier_g S) (B_new ec ov0 pn)) = Inr B
    \<and> S_paillier S = paillier_generate cp p q
    \<and> (\<forall>m. length m = 32 \<longrightarrow> parties_ok cp ec m (S_set_data m S) (B_set_data m B))"
proof -
  have n: "pl_n (paillier_generate cp p q) = p * q" by (simp add: paillier_generate_def Let_def)
  have "1 < p * q" using paillier_key_fields(8) [OF key] by (simp only: n)
  then have "p \<noteq> 0" "q \<noteq> 0" by auto
  then show ?thesis using key big
    by (simp add: S_new_def B_new_def Let_def S_get_paillier_n_def S_get_paillier_g_def n
        paillier_get_n_def paillier_get_g_def paillier_client_def parties_ok_def S_set_data_def
        B_set_data_def)
qed

lemma S_paillier_bits_enough:
  assumes "curve_setup cp ec" "p \<in> {2 ^ S_paillier_bits cp ec .. b}" "q \<in> {2 ^ S_paillier_bits cp ec .. c}"
  shows "2 * ec_order ec * ec_order ec * ec_order ec * ec_order ec < p * q"
proof -
  let ?n = "ec_order ec" and ?k = "bit_count cp (ec_order ec)"
  have n: "0 < ?n" using curve_setup_laws(6) [OF assms(1)] by simp
  then have le: "?n \<le> 2 ^ ?k"
    using curve_setup_laws(2) [OF assms(1)] by (simp add: size_laws_def less_imp_le)
  define X :: int where "X = 2 ^ ?k"
  have "?n * ?n * (?n * ?n) \<le> (X * X) * (X * X)"
    using n le unfolding X_def by (intro mult_mono) simp_all
  moreover have "0 < (X * X) * (X * X)" by (simp add: X_def)
  moreover have "2 * ?n * ?n * ?n * ?n = 2 * (?n * ?n * (?n * ?n))" by (simp only: mult.assoc)
  ultimately have "2 * ?n * ?n * ?n * ?n < 64 * ((X * X) * (X * X))" by linarith
  also have "\<dots> = 2 ^ S_paillier_bits cp ec * 2 ^ S_paillier_bits cp ec"
  proof -
    have "(2 :: int) ^ S_paillier_bits cp ec = X * X * 8"
    proof -
      have "(2 :: int) ^ (2 * ?k + 3) = 2 ^ ?k * 2 ^ ?k * 2 ^ 3" by (simp only: power_add mult_2)
      then show ?thesis unfolding S_paillier_bits_def X_def by simp
    qed
    then show ?thesis by (simp only:)
  qed
  also have "\<dots> \<le> p * q"
    using assms(2,3) by (intro mult_mono) (auto intro: order_trans [of 0 "2 ^ S_paillier_bits cp ec"])
  finally show ?thesis .
qed

section \<open>Instances for the witnesses\<close>

lemma ref_curve_setup: "0 \<le> off \<Longrightarrow> curve_setup ref_cryptopp (ref_ec off)"
  by (simp add: curve_setup_def ref_laws ref_ec_laws ref_ec_simps ref_simps ref_size.simps)

lemma ref_message_int: "message_int ref_cryptopp (ref_ec off) (replicate 32 1) = 1"
proof -
  have "take 1 (replicate 32 (1 :: byte)) = [1]" by (simp add: numeral_eq_Suc)
  then show ?thesis
    by (simp add: message_int_def ref_ec_simps ref_simps ref_size.simps ref_decode_def)
qed

lemma ref_paillier_key: "paillier_key ref_cryptopp (paillier_generate ref_cryptopp 37 41)"
proof -
  have "prime_integer 37" "prime_integer 41" by (simp_all add: prime_integer_code upto_rec_numeral)
  moreover have "coprime (36 * 40 :: int) (37 * 41)" by (rule coprime_bezout [of 197 _ "-187"]) simp
  ultimately show ?thesis
    by (simp add: paillier_key_def paillier_generate_def Let_def ref_laws)
qed

lemma ref_parties:
  "\<exists>S B. parties_ok ref_cryptopp (ref_ec off) (replicate 32 1) S B \<and> pl_n (S_paillier S) = 1517"
proof -
  have "2 * ec_order (ref_ec off) * ec_order (ref_ec off) * ec_order (ref_ec off) * ec_order (ref_ec off)
      < 37 * 41" by (simp add: ref_ec_simps)
  then obtain S B where "S_paillier S = paillier_generate ref_cryptopp 37 41"
    "parties_ok ref_cryptopp (ref_ec off) (replicate 32 1) (S_set_data (replicate 32 1) S)
       (B_set_data (replicate 32 1) B)"
    using parties_new [OF ref_paillier_key, of "ref_ec off"] by (meson length_replicate)
  moreover have "pl_n (paillier_generate ref_cryptopp 37 41) = 1517"
    by (simp add: paillier_generate_def Let_def)
  ultimately show ?thesis
    by (intro exI [of _ "S_set_data (replicate 32 1) S"] exI [of _ "B_set_data (replicate 32 1) B"])
      (simp add: S_set_data_def)
qed

section \<open>Properties\<close>

text \<open>
  C28: two honest parties end with a signature that verifies under their shared public key, with the
  first coordinate of the nonce point as \<open>r\<close> and the smaller of the two possible \<open>s\<close>, and the opening
  sets B's flag. The numbers drawn are in their ranges, the nonce point gives an \<open>r\<close> that is not
  zero and not reduced, and \<open>s\<close> does not happen to be zero.
\<close>

theorem shared_signature_correct:
  assumes "ss_fresh cp ec m kd sd S B"
  shows "\<exists>S' B' B''. seq (ss_init kd) (ss_exec cp ec sd) (S, B) = (Inr (), S', B')
    \<and> S_r S' = nonce_x ec sd \<and> 0 < S_s S' \<and> 2 * S_s S' \<le> ec_order ec
    \<and> verify_signature cp ec (ec_multiply ec (draw_ds kd * draw_db kd) (ec_generator ec)) m
        (S_r S') (S_s S') = Inr True
    \<and> ss_open cp ec (S', B') = (Inr (), S', B'') \<and> B_getOpenVerified B''"
proof -
  obtain S' B' where r: "seq (ss_init kd) (ss_exec cp ec sd) (S, B) = (Inr (), S', B')"
    "S_r S' = nonce_r ec sd" "0 < S_s S'" "2 * S_s S' \<le> ec_order ec" "keys_agreed ec kd S' B'"
    "B_data B' = m" "ss_ready cp ec S' B'"
    using ss_run [OF assms] by blast
  moreover obtain S'' B'' where "ss_open cp ec (S', B') = (Inr (), S'', B'')" "B_getOpenVerified B''"
    using sig.open_verified [OF r(7)] by blast
  moreover then have "S'' = S'" by (auto simp: ss_open_def Let_def split: sum.splits)
  moreover have "nonce_x ec sd = nonce_r ec sd"
  proof -
    have "0 \<le> nonce_x ec sd"
      using assms by (simp add: ss_fresh_def curve_setup_def draws_ok_def nonce_x_def x_coord_nonneg)
    then show ?thesis using assms by (simp add: ss_fresh_def nonce_r_def)
  qed
  ultimately show ?thesis
    by (auto simp: ss_ready_def keys_agreed_def shared_key_def)
qed

theorem shared_signature_correct_witness:
  "\<exists>S B S' B' B''. seq (ss_init \<lparr>draw_ds = 1, draw_db = 1\<rparr>) (ss_exec ref_cryptopp (ref_ec 0)
       \<lparr>draw_ks = 1, draw_rs = 1, draw_kb = 1, draw_r1 = 1, draw_u = 0, draw_r2 = 1\<rparr>) (S, B)
     = (Inr (), S', B') \<and> S_r S' = 1 \<and> ss_open ref_cryptopp (ref_ec 0) (S', B') = (Inr (), S', B'')
     \<and> B_getOpenVerified B''"
proof -
  let ?kd = "\<lparr>draw_ds = 1, draw_db = 1\<rparr>"
  let ?sd = "\<lparr>draw_ks = 1, draw_rs = 1, draw_kb = 1, draw_r1 = 1, draw_u = 0, draw_r2 = 1\<rparr>"
  obtain S B where ok: "parties_ok ref_cryptopp (ref_ec 0) (replicate 32 1) S B"
    using ref_parties by blast
  have x: "nonce_x (ref_ec 0) ?sd = 1" by (simp add: nonce_x_def ref_ec_simps ref_point_def)
  have "ss_fresh ref_cryptopp (ref_ec 0) (replicate 32 1) ?kd ?sd S B"
    using ok by (simp add: ss_fresh_def ref_curve_setup draws_ok_def x nonce_r_def ref_message_int
        shared_key_def) (simp add: ref_ec_simps)
  from shared_signature_correct [OF this] show ?thesis unfolding x by blast
qed

text \<open>
  C31: a first coordinate of the nonce point that is not below the group order makes the honest run
  end in an exception: \<open>r\<close> is reduced, and the verification compares it with the coordinate itself.
\<close>

theorem shared_signature_large_coordinate:
  assumes cset: "curve_setup cp ec" and ok: "parties_ok cp ec m S B"
    and dr: "draws_ok ec (pl_n (S_paillier S)) kd sd" and r: "nonce_r ec sd \<noteq> 0"
    and nz: "\<not> ec_order ec dvd message_int cp ec m + nonce_r ec sd * shared_key kd"
    and x: "ec_order ec \<le> nonce_x ec sd"
  shows "fst (seq (ss_init kd) (ss_exec cp ec sd) (S, B))
    = Inl (ProtocolException ''Invalid signature generated!'')"
proof -
  have c: "S_curve S = ec" "B_curve B = ec" "0 \<le> draw_ds kd" "0 \<le> draw_db kd"
    using ok dr by (simp_all add: parties_ok_def draws_ok_def)
  obtain S1 B1 where 1: "ss_init kd (S, B) = (Inr (), S1, B1)" "keys_agreed ec kd S1 B1"
    "parties_ok cp ec m S1 B1" "S_paillier S1 = S_paillier S"
    using ss_init_agrees [OF cset c] ok by blast
  then have "draws_ok ec (pl_n (S_paillier S1)) kd sd" using dr by simp
  from ss_exec_run [OF cset 1(3,2) this r nz] x
  obtain S2 B2 where "ss_exec cp ec sd (S1, B1)
      = (Inl (ProtocolException ''Invalid signature generated!''), S2, B2)" by auto
  with 1(1) show ?thesis by (simp add: seq_def and_then_def)
qed

theorem shared_signature_large_coordinate_witness:
  "\<exists>S B. fst (seq (ss_init \<lparr>draw_ds = 1, draw_db = 1\<rparr>) (ss_exec ref_cryptopp (ref_ec 5)
       \<lparr>draw_ks = 1, draw_rs = 1, draw_kb = 1, draw_r1 = 1, draw_u = 0, draw_r2 = 1\<rparr>) (S, B))
     = Inl (ProtocolException ''Invalid signature generated!'')"
proof -
  let ?kd = "\<lparr>draw_ds = 1, draw_db = 1\<rparr>"
  let ?sd = "\<lparr>draw_ks = 1, draw_rs = 1, draw_kb = 1, draw_r1 = 1, draw_u = 0, draw_r2 = 1\<rparr>"
  obtain S B where ok: "parties_ok ref_cryptopp (ref_ec 5) (replicate 32 1) S B"
    using ref_parties by blast
  have x: "nonce_x (ref_ec 5) ?sd = 6" by (simp add: nonce_x_def ref_ec_simps ref_point_def)
  have r: "nonce_r (ref_ec 5) ?sd = 1" unfolding nonce_r_def x by (simp add: ref_ec_simps)
  have cset: "curve_setup ref_cryptopp (ref_ec 5)" by (rule ref_curve_setup) simp
  have "fst (seq (ss_init ?kd) (ss_exec ref_cryptopp (ref_ec 5) ?sd) (S, B))
     = Inl (ProtocolException ''Invalid signature generated!'')"
    by (rule shared_signature_large_coordinate [OF cset ok])
      (simp_all add: x r draws_ok_def ref_message_int shared_key_def ref_ec_simps)
  then show ?thesis by blast
qed

text \<open>
  The constructors. Two distinct primes of the drawn size give S a working Paillier key, and B
  accepts the modulus: its length check never refuses an honest S.
\<close>

theorem parties_constructed:
  assumes cset: "curve_setup cp ec" and p: "prime_integer p" and q: "prime_integer q" and pq: "p \<noteq> q"
    and range: "{p, q} \<subseteq> {2 ^ S_paillier_bits cp ec .. 2 ^ (S_paillier_bits cp ec + 1)}"
  shows "\<exists>S B. S_new cp ec p q = Inr S
    \<and> sum_then (S_get_paillier_n S) (\<lambda>pn. sum_then (S_get_paillier_g S) (B_new ec ov0 pn)) = Inr B
    \<and> paillier_key cp (S_paillier S)
    \<and> (\<forall>m. length m = 32 \<longrightarrow> parties_ok cp ec m (S_set_data m S) (B_set_data m B))"
proof -
  have bits: "4 \<le> (2 :: int) ^ S_paillier_bits cp ec"
    using power_increasing [of 2 "S_paillier_bits cp ec" "2 :: int"] by (simp add: S_paillier_bits_def)
  have r: "p \<in> {2 ^ S_paillier_bits cp ec .. 2 ^ (S_paillier_bits cp ec + 1)}"
    "q \<in> {2 ^ S_paillier_bits cp ec .. 2 ^ (S_paillier_bits cp ec + 1)}" using range by simp_all
  have key: "paillier_key cp (paillier_generate cp p q)"
    by (rule paillier_generated_key [OF _ p q pq]) (use bits r cset in \<open>auto simp: curve_setup_def\<close>)
  from parties_new [OF key S_paillier_bits_enough [OF cset r]] key show ?thesis by metis
qed

theorem parties_constructed_witness:
  "\<exists>S B. S_new ref_cryptopp (ref_ec 0) 521 523 = Inr S
    \<and> sum_then (S_get_paillier_n S) (\<lambda>pn. sum_then (S_get_paillier_g S) (B_new (ref_ec 0) False pn)) = Inr B"
proof -
  have "prime_integer 521" "prime_integer 523" by (simp_all add: prime_integer_code upto_rec_numeral)
  moreover have "S_paillier_bits ref_cryptopp (ref_ec 0) = 9"
    by (simp add: S_paillier_bits_def ref_ec_simps ref_simps ref_bits.simps)
  ultimately show ?thesis
    using parties_constructed [OF ref_curve_setup, of 0 521 523 False] by auto
qed

text \<open>
  C29: whatever S is sent, \<open>finish_sig\<close> returns normally only with a signature that verifies under its
  key and data and whose \<open>s\<close> is at most half the order; it raises the documented exceptions when
  \<open>s\<close> is zero and when the verification fails.
\<close>

theorem S_finish_sig_outcomes:
  "case S_finish_sig cp ec r cb S of
     (Inr _, S') \<Rightarrow> verify_signature cp ec (S_Q S) (S_data S) r (S_s S') = Inr True \<and> S_r S' = r
       \<and> 2 * S_s S' \<le> ec_order (S_curve S) \<and> S_s S' \<noteq> 0
   | (Inl e, S') \<Rightarrow> S_r S' = r \<and>
       (paillier_dec cp (S_paillier S) cb = Inl e
        \<or> e = ProtocolException ''ERR s==0 restart protocol'' \<and> S_s S' = 0
        \<or> e = ProtocolException ''Data is empty!'' \<and> S_data S = []
        \<or> verify_signature cp ec (S_Q S) (S_data S) r (S_s S') = Inl e
        \<or> e = ProtocolException ''Invalid signature generated!''
            \<and> verify_signature cp ec (S_Q S) (S_data S) r (S_s S') = Inr False)"
proof (cases "paillier_dec cp (S_paillier S) cb")
  case (Inl e)
  then show ?thesis by (simp add: S_finish_sig_def Let_def)
next
  case (Inr d)
  have pos: "low_s n s \<noteq> 0" if "verify_signature cp ec Q m r (low_s n s) = Inr True" for n s Q m
    using that by (auto simp: verify_signature_def Let_def sum_then_Inr split: if_splits)
  show ?thesis
    using Inr pos
    by (auto simp: low_s_half S_finish_sig_def Let_def S_get_data_length_def split: sum.splits)
qed

text \<open>
  C30: replacing \<open>s\<close> by \<open>n - s\<close>, as \<open>finish_sig\<close> does with the larger of the two, does not change what
  verification says.
\<close>

theorem verify_signature_negation:
  assumes cset: "curve_setup cp ec" and m: "length m = 32" and d: "0 \<le> d"
    and s: "0 < s" "s < ec_order ec"
  shows "verify_signature cp ec (ec_multiply ec d (ec_generator ec)) m r (ec_order ec - s)
    = verify_signature cp ec (ec_multiply ec d (ec_generator ec)) m r s"
proof (cases "\<not> ec_order ec dvd d \<and> 0 < r \<and> r < ec_order ec")
  case False
  have "0 < ec_order ec - s" "ec_order ec - s < ec_order ec" using s by simp_all
  with False s d curve_setup_laws(4) [OF cset] show ?thesis
    by (auto simp: verify_signature_def Let_def ec_multiply_identity_iff
        hash_m_to_int_message [OF cset m])
next
  case True
  let ?n = "ec_order ec" and ?z = "message_int cp ec m"
  note laws = curve_setup_laws [OF cset]
  define e where "e = (\<lambda>s. ?z * inverse_mod cp s ?n mod ?n + (r * inverse_mod cp s ?n mod ?n) * d)"
  have nn: "0 \<le> e s" for s using laws(6) d by (simp add: e_def)
  have root: "?n dvd t * e t - (?z + r * d)" if t: "0 < t" "t < ?n" for t
  proof -
    have "\<not> ?n dvd t" using t by (simp add: zdvd_not_zless)
    then have "coprime t ?n" using prime_integer_coprime [OF laws(7)] coprime_commute by blast
    then have "t * inverse_mod cp t ?n mod ?n = 1" by (rule inverse_mod_inverse(3) [OF laws(1,6)])
    then obtain c where c: "t * inverse_mod cp t ?n = 1 + ?n * c" by (metis mult_div_mod_eq add.commute)
    obtain c1 c2 where c1: "?z * inverse_mod cp t ?n mod ?n = ?z * inverse_mod cp t ?n - ?n * c1"
      and c2: "r * inverse_mod cp t ?n mod ?n = r * inverse_mod cp t ?n - ?n * c2"
      by (metis minus_mult_div_eq_mod)
    have "t * e t - (?z + r * d) = (t * inverse_mod cp t ?n - 1) * (?z + r * d) - ?n * (t * c1 + t * c2 * d)"
      unfolding e_def c1 c2 by (simp add: algebra_simps)
    then show ?thesis unfolding c by simp
  qed
  have s': "0 < ?n - s" "?n - s < ?n" using s by simp_all
  have "?n dvd (s * e s - (?z + r * d)) - ((?n - s) * e (?n - s) - (?z + r * d)) + ?n * e (?n - s)"
    by (rule dvd_add [OF dvd_diff [OF root [OF s] root [OF s']] dvd_triv_left])
  also have "(s * e s - (?z + r * d)) - ((?n - s) * e (?n - s) - (?z + r * d)) + ?n * e (?n - s)
      = s * (e s + e (?n - s))" by (simp add: algebra_simps)
  finally have "?n dvd s * (e s + e (?n - s))" .
  moreover have "\<not> ?n dvd s" using s by (simp add: zdvd_not_zless)
  ultimately have "?n dvd e s + e (?n - s)" using prime_integer_dvd_mult [OF laws(7)] by blast
  then have "x_coord (ec_multiply ec (e (?n - s)) (ec_generator ec))
      = x_coord (ec_multiply ec (e s) (ec_generator ec))"
    using x_coord_same [OF laws(4) nn nn] by (simp add: add.commute)
  then show ?thesis
    using True verify_signature_multiple [OF cset m d _ _ _ s] verify_signature_multiple [OF cset m d _ _ _ s']
    by (simp add: e_def)
qed

theorem verify_signature_negation_witness:
  "verify_signature ref_cryptopp (ref_ec 0) (ec_multiply (ref_ec 0) 2 (ec_generator (ref_ec 0)))
     (replicate 32 1) 1 (5 - 2)
   = verify_signature ref_cryptopp (ref_ec 0) (ec_multiply (ref_ec 0) 2 (ec_generator (ref_ec 0)))
     (replicate 32 1) 1 2"
  using verify_signature_negation [OF ref_curve_setup, of 0 "replicate 32 1" 2 2 1]
  by (simp add: ref_ec_simps)

end
