(* ===== verification/Signature_Key.thy ===== *)
theory Signature_Key
  imports Shared_Signature Timed_Commitment Sha_Commitment Cut_And_Choose
begin

text \<open>
  main/signature_key.h and signature_key.cpp: one execution of the first cut-and-choose. Seller and
  buyer sign the hash of T2 together, the seller puts its key share into a timed commitment, derives
  \<open>L\<close> keys from the signature and commits to them and to the signature.

  The \<^verbatim>\<open>T2_hash\<close> pointers of both parties point to one string of the buyer, read when \<open>exec\<close> runs:
  its value is the argument \<open>t2\<close>. The verdict of the library's own ECDSA verifier is the argument
  \<open>lib_verify\<close>; the program computes it and does not look at it. \<open>BaseParty\<close>, the connection to the
  RPC server, has no place here.
\<close>

section \<open>The keys\<close>

definition genKeys :: "cryptopp \<Rightarrow> nat \<Rightarrow> byte list \<Rightarrow> byte list list" where
  "genKeys cp L signature =
     map (\<lambda>i. let I = int i;
                  i_encoded = encode_bytes cp I (min_encoded_size cp I);
                  tmp = concatenate signature i_encoded
              in sha256_digest cp tmp) [0..<L]"

section \<open>The parties\<close>

record single_seller =
  sl_keys :: "byte list list"
  sl_share :: share_s
  sl_commiter :: commiter
  sl_keys_commits :: "sha_sender list"
  sl_signature_commit :: sha_sender

record single_buyer =
  sb_open_verified :: bool
  sb_share :: share_b
  sb_receiver :: tc_receiver
  sb_keys_commits :: "sha_receiver list"
  sb_signature_commit :: sha_receiver

text \<open>The constructors; the members they do not initialise are taken from \<open>mem\<close>.\<close>

definition new_single_seller :: "single_seller \<Rightarrow> share_s \<Rightarrow> int \<Rightarrow> int \<Rightarrow> exn + single_seller" where
  "new_single_seller mem S draw_p draw_q =
     sum_then (new_commiter (cm_com (sl_commiter mem)) draw_p draw_q) (\<lambda>c.
       Inr (mem\<lparr>sl_share := S, sl_commiter := c\<rparr>))"

definition new_single_buyer :: "single_buyer \<Rightarrow> share_b \<Rightarrow> single_buyer" where
  "new_single_buyer mem B = mem\<lparr>sb_open_verified := False, sb_share := B\<rparr>"

definition single_seller_cheat :: "(single_seller, unit) comp" where
  "single_seller_cheat = throw (ProtocolException ''Cheating not implemented!'')"

definition sb_setOpenVerified :: "bool \<Rightarrow> single_buyer \<Rightarrow> single_buyer" where
  "sb_setOpenVerified open_verified b = b\<lparr>sb_open_verified := open_verified\<rparr>"

definition sb_getOpenVerified :: "single_buyer \<Rightarrow> bool" where
  "sb_getOpenVerified b = sb_open_verified b"

text \<open>The assignments of \<open>genKeysAndSetupCommits\<close> for a given signature.\<close>

definition setup_commits :: "cryptopp \<Rightarrow> nat \<Rightarrow> byte list \<Rightarrow> single_seller \<Rightarrow> single_seller" where
  "setup_commits cp L signature a =
     (let a1 = a\<lparr>sl_keys := genKeys cp L signature\<rparr>;
          a2 = fold (\<lambda>i a. a\<lparr>sl_keys_commits := (sl_keys_commits a)
                               [i := (sl_keys_commits a ! i)\<lparr>snd_m := sl_keys a ! i\<rparr>]\<rparr>) [0..<L] a1
      in a2\<lparr>sl_signature_commit := (sl_signature_commit a2)\<lparr>snd_m := signature\<rparr>\<rparr>)"

definition genKeysAndSetupCommits :: "cryptopp \<Rightarrow> nat \<Rightarrow> single_seller \<Rightarrow> single_seller" where
  "genKeysAndSetupCommits cp L a =
     (let signature = S_get_signature cp (sl_share a) in setup_commits cp L signature a)"

text \<open>
  \<^verbatim>\<open>std::equal\<close> on the whole first range and the start of the second: it stops at the first
  difference, and a first range that is longer runs past the end of the second.
\<close>

fun std_equal :: "'a list \<Rightarrow> 'a list \<Rightarrow> exn + bool" where
  "std_equal [] ys = Inr True"
| "std_equal (x # xs) [] = Inl Undefined"
| "std_equal (x # xs) (y # ys) = (if x = y then std_equal xs ys else Inr False)"

fun check_keys :: "sha_receiver list \<Rightarrow> byte list list \<Rightarrow> nat list \<Rightarrow> exn + unit" where
  "check_keys keys_commits exp_keys [] = Inr ()"
| "check_keys keys_commits exp_keys (i # is) =
     sum_then (std_equal (rcv_m (keys_commits ! i)) (exp_keys ! i)) (\<lambda>eq.
       if \<not> eq then Inl (ProtocolException ''Invalid key'')
       else check_keys keys_commits exp_keys is)"

definition verifyKeys :: "cryptopp \<Rightarrow> nat \<Rightarrow> single_buyer \<Rightarrow> exn + unit" where
  "verifyKeys cp L b =
     (let signature = rcv_m (sb_signature_commit b); exp_keys = genKeys cp L signature
      in check_keys (sb_keys_commits b) exp_keys [0..<L])"

section \<open>The protocol\<close>

text \<open>The parts of the two parties that the protocols they are built from run on.\<close>

definition on_shares :: "(share_s \<times> share_b, 'x) comp \<Rightarrow> (single_seller \<times> single_buyer, 'x) comp" where
  "on_shares f = (\<lambda>(a, b). case f (sl_share a, sb_share b) of
     (r, S, B) \<Rightarrow> (r, a\<lparr>sl_share := S\<rparr>, b\<lparr>sb_share := B\<rparr>))"

definition on_timed :: "(commiter \<times> tc_receiver, 'x) comp \<Rightarrow> (single_seller \<times> single_buyer, 'x) comp" where
  "on_timed f = (\<lambda>(a, b). case f (sl_commiter a, sb_receiver b) of
     (r, c, rc) \<Rightarrow> (r, a\<lparr>sl_commiter := c\<rparr>, b\<lparr>sb_receiver := rc\<rparr>))"

definition on_keys ::
    "(sha_sender list \<times> sha_receiver list, 'x) comp \<Rightarrow> (single_seller \<times> single_buyer, 'x) comp" where
  "on_keys f = (\<lambda>(a, b). case f (sl_keys_commits a, sb_keys_commits b) of
     (r, s, v) \<Rightarrow> (r, a\<lparr>sl_keys_commits := s\<rparr>, b\<lparr>sb_keys_commits := v\<rparr>))"

definition on_signature ::
    "(sha_sender \<times> sha_receiver, 'x) comp \<Rightarrow> (single_seller \<times> single_buyer, 'x) comp" where
  "on_signature f = (\<lambda>(a, b). case f (sl_signature_commit a, sb_signature_commit b) of
     (r, s, v) \<Rightarrow> (r, a\<lparr>sl_signature_commit := s\<rparr>, b\<lparr>sb_signature_commit := v\<rparr>))"

record sigkey_draw =
  sk_sig :: sig_draw
  sk_h :: int
  sk_seeds :: "byte list list"
  sk_seed :: "byte list"

definition cryptopp_test ::
    "cryptopp \<Rightarrow> (ec_point \<Rightarrow> byte list \<Rightarrow> byte list \<Rightarrow> bool) \<Rightarrow> ec_point \<Rightarrow> int \<Rightarrow> int \<Rightarrow> byte list \<Rightarrow> int" where
  "cryptopp_test cp lib_verify Q r s message =
     (let signature = encode_bytes cp r 32 @ encode_bytes cp s 32;
          result = lib_verify Q message signature
      in if \<not> result then 1 else 0)"

definition sk_init :: "(single_seller, single_buyer) step" where
  "sk_init = ret ()"

definition set_signed_data :: "byte list \<Rightarrow> (single_seller, single_buyer) step" where
  "set_signed_data t2 = modify (\<lambda>(a, b).
     (a\<lparr>sl_share := S_set_data t2 (sl_share a)\<rparr>, b\<lparr>sb_share := B_set_data t2 (sb_share b)\<rparr>))"

text \<open>\<open>exec\<close> in two parts: the signature with the time lock, and the commitments to the keys.\<close>

definition sk_sign ::
    "cryptopp \<Rightarrow> ec \<Rightarrow> params \<Rightarrow> (ec_point \<Rightarrow> byte list \<Rightarrow> byte list \<Rightarrow> bool) \<Rightarrow> byte list \<Rightarrow>
     sigkey_draw \<Rightarrow> (single_seller, single_buyer) step" where
  "sk_sign cp ec P lib_verify t2 dr =
     seq (set_signed_data t2)
     (seq (on_shares (ss_exec cp ec (sk_sig dr)))
     (and_then (fetch (\<lambda>(a, b). cryptopp_test cp lib_verify (S_get_Q (sl_share a)) (S_get_r (sl_share a))
                                  (S_get_s (sl_share a)) t2 \<noteq> 0)) (\<lambda>res.
      and_then (\<lambda>(a, b). (integer_to_bits cp (S_get_ds (sl_share a)), a, b)) (\<lambda>bits.
      and_then (on_timed (tc_commit cp (sk_h dr) (par_K P) bits)) (\<lambda>_. ret ())))))"

definition sk_commit ::
    "cryptopp \<Rightarrow> params \<Rightarrow> (single_seller \<Rightarrow> single_seller) \<Rightarrow> sigkey_draw \<Rightarrow>
     (single_seller, single_buyer) step" where
  "sk_commit cp P setup_keys dr =
     seq (modify (\<lambda>(a, b). (setup_keys a, b)))
     (seq (on_keys (for_each [0..<par_L P] (\<lambda>i.
              seq (at_index i sha_init) (at_index i (sha_exec cp (sk_seeds dr ! i))))))
     (seq (on_signature sha_init) (on_signature (sha_exec cp (sk_seed dr)))))"

definition sk_exec ::
    "cryptopp \<Rightarrow> ec \<Rightarrow> params \<Rightarrow> (ec_point \<Rightarrow> byte list \<Rightarrow> byte list \<Rightarrow> bool) \<Rightarrow> byte list \<Rightarrow>
     sigkey_draw \<Rightarrow> (single_seller, single_buyer) step" where
  "sk_exec cp ec P lib_verify t2 dr =
     seq (sk_sign cp ec P lib_verify t2 dr)
         (sk_commit cp P (genKeysAndSetupCommits cp (par_L P)) dr)"

definition sk_open :: "cryptopp \<Rightarrow> ec \<Rightarrow> params \<Rightarrow> (single_seller, single_buyer) step" where
  "sk_open cp ec P =
     seq (on_shares (ss_open cp ec))
     (and_then (on_timed (open_commitment cp)) (\<lambda>_.
      seq (on_keys (for_each [0..<par_L P] (\<lambda>i. at_index i (sha_open cp))))
      (seq (on_signature (sha_open cp))
      (seq (\<lambda>(a, b). (verifyKeys cp (par_L P) b, a, b))
           (modify (\<lambda>(a, b). (a, sb_setOpenVerified (B_getOpenVerified (sb_share b)) b)))))))"

section \<open>Keys\<close>

lemma length_genKeys [simp]: "length (genKeys cp L sig) = L"
  by (simp add: genKeys_def)

lemma genKeys_nth: "i < L \<Longrightarrow> genKeys cp L sig ! i = sha256_digest cp (sig @ to_bytes cp (int i))"
  by (simp add: genKeys_def Let_def to_bytes_def)

lemma setup_commits_fields:
  assumes "length (sl_keys_commits a) = L"
  shows "sl_share (setup_commits cp L sig a) = sl_share a"
    "sl_commiter (setup_commits cp L sig a) = sl_commiter a"
    "sl_signature_commit (setup_commits cp L sig a) = (sl_signature_commit a)\<lparr>snd_m := sig\<rparr>"
    "length (sl_keys_commits (setup_commits cp L sig a)) = L"
    "i < L \<Longrightarrow> sl_keys_commits (setup_commits cp L sig a) ! i
        = (sl_keys_commits a ! i)\<lparr>snd_m := genKeys cp L sig ! i\<rparr>"
proof -
  let ?a1 = "a\<lparr>sl_keys := genKeys cp L sig\<rparr>"
  let ?step = "\<lambda>i a. a\<lparr>sl_keys_commits := (sl_keys_commits a)
                        [i := (sl_keys_commits a ! i)\<lparr>snd_m := sl_keys a ! i\<rparr>]\<rparr>"
  have inv: "k \<le> L \<Longrightarrow> fold ?step [0..<k] ?a1 =
      ?a1\<lparr>sl_keys_commits := map (\<lambda>i. if i < k then (sl_keys_commits a ! i)\<lparr>snd_m := genKeys cp L sig ! i\<rparr>
        else sl_keys_commits a ! i) [0..<L]\<rparr>" for k
  proof (induction k)
    case 0
    have "map (\<lambda>i. sl_keys_commits a ! i) [0..<L] = sl_keys_commits a"
      using assms by (intro map_nth_upt_eq) simp_all
    then show ?case by simp
  next
    case (Suc k)
    then show ?case
      by (simp, intro arg_cong [where f = "\<lambda>x. ?a1\<lparr>sl_keys_commits := x\<rparr>"] nth_equalityI)
        (auto simp: nth_list_update less_Suc_eq)
  qed
  have "map (\<lambda>i. if i < L then (sl_keys_commits a ! i)\<lparr>snd_m := genKeys cp L sig ! i\<rparr>
        else sl_keys_commits a ! i) [0..<L]
      = map (\<lambda>i. (sl_keys_commits a ! i)\<lparr>snd_m := genKeys cp L sig ! i\<rparr>) [0..<L]" by simp
  with inv [of L] have "setup_commits cp L sig a =
      ?a1\<lparr>sl_keys_commits := map (\<lambda>i. (sl_keys_commits a ! i)\<lparr>snd_m := genKeys cp L sig ! i\<rparr>) [0..<L],
        sl_signature_commit := (sl_signature_commit a)\<lparr>snd_m := sig\<rparr>\<rparr>"
    by (simp add: setup_commits_def Let_def)
  then show "sl_share (setup_commits cp L sig a) = sl_share a"
    "sl_commiter (setup_commits cp L sig a) = sl_commiter a"
    "sl_signature_commit (setup_commits cp L sig a) = (sl_signature_commit a)\<lparr>snd_m := sig\<rparr>"
    "length (sl_keys_commits (setup_commits cp L sig a)) = L"
    "i < L \<Longrightarrow> sl_keys_commits (setup_commits cp L sig a) ! i
        = (sl_keys_commits a ! i)\<lparr>snd_m := genKeys cp L sig ! i\<rparr>"
    by simp_all
qed

lemma std_equal_True: "std_equal xs ys = Inr True \<longleftrightarrow> take (length xs) ys = xs"
  by (induction xs ys rule: std_equal.induct) auto

lemma check_keys_Inr:
  "check_keys kc ks is = Inr () \<longleftrightarrow> (\<forall>i\<in>set is. take (length (rcv_m (kc ! i))) (ks ! i) = rcv_m (kc ! i))"
proof (induction "is")
  case Nil
  then show ?case by simp
next
  case (Cons i "is")
  then show ?case
    using std_equal_True [of "rcv_m (kc ! i)" "ks ! i"]
    by (cases "std_equal (rcv_m (kc ! i)) (ks ! i)") auto
qed

lemma verifyKeys_Inr:
  "verifyKeys cp L b = Inr () \<longleftrightarrow> (\<forall>i<L. let m = rcv_m (sb_keys_commits b ! i)
     in take (length m) (genKeys cp L (rcv_m (sb_signature_commit b)) ! i) = m)"
  by (auto simp: verifyKeys_def check_keys_Inr Let_def)

section \<open>What a verified opening says\<close>

text \<open>The whole of what \<open>open\<close> checks; a key is only compared over its own length.\<close>

definition sk_checked :: "cryptopp \<Rightarrow> ec \<Rightarrow> params \<Rightarrow> single_buyer \<Rightarrow> bool" where
  "sk_checked cp ec P b \<longleftrightarrow>
     ss_signed cp ec (sb_share b) \<and> sha_checked cp (sb_signature_commit b) \<and>
     (\<forall>i<par_L P. sha_checked cp (sb_keys_commits b ! i) \<and>
        (let m = rcv_m (sb_keys_commits b ! i)
         in take (length m) (genKeys cp (par_L P) (rcv_m (sb_signature_commit b)) ! i) = m))"

lemma on_parts_Inr:
  "on_shares f (a, b) = (Inr x, a', b') \<longleftrightarrow> (\<exists>S B. f (sl_share a, sb_share b) = (Inr x, S, B) \<and>
     a' = a\<lparr>sl_share := S\<rparr> \<and> b' = b\<lparr>sb_share := B\<rparr>)"
  "on_timed g (a, b) = (Inr y, a', b') \<longleftrightarrow> (\<exists>c rc. g (sl_commiter a, sb_receiver b) = (Inr y, c, rc) \<and>
     a' = a\<lparr>sl_commiter := c\<rparr> \<and> b' = b\<lparr>sb_receiver := rc\<rparr>)"
  "on_keys h (a, b) = (Inr z, a', b') \<longleftrightarrow> (\<exists>s v. h (sl_keys_commits a, sb_keys_commits b) = (Inr z, s, v) \<and>
     a' = a\<lparr>sl_keys_commits := s\<rparr> \<and> b' = b\<lparr>sb_keys_commits := v\<rparr>)"
  "on_signature k (a, b) = (Inr w, a', b') \<longleftrightarrow>
     (\<exists>s v. k (sl_signature_commit a, sb_signature_commit b) = (Inr w, s, v) \<and>
       a' = a\<lparr>sl_signature_commit := s\<rparr> \<and> b' = b\<lparr>sb_signature_commit := v\<rparr>)"
  by (auto simp: on_shares_def on_timed_def on_keys_def on_signature_def split: prod.splits)

lemma sha_open_Inr:
  "sha_open cp (s, r) = (Inr (), s', r') \<longleftrightarrow> s' = s \<and> sha_ready cp s r \<and>
     r' = r\<lparr>rcv_m := snd_m s, rcv_seed := take sha_N (snd_seed s), rcv_open_verified := True\<rparr>"
  by (auto simp: sha_open_eq sha_ready_def Let_def)

lemma sha_open_checked: "sha_open cp (s, r) = (Inr (), s', r') \<Longrightarrow> sha_checked cp r'"
  by (auto simp: sha_open_Inr sha_checked_def sha_ready_def)

text \<open>The steps of a returning \<open>open\<close>, one after the other.\<close>

lemma sk_open_Inr:
  assumes "sk_open cp ec P (a, b) = (Inr (), a', b')"
  shows "\<exists>S B. ss_open cp ec (sl_share a, sb_share b) = (Inr (), S, B) \<and> sb_share b' = B \<and>
    sha_checked cp (sb_signature_commit b') \<and>
    (\<forall>i<par_L P. sha_checked cp (sb_keys_commits b' ! i)) \<and>
    verifyKeys cp (par_L P) b' = Inr () \<and> sb_open_verified b' = B_getOpenVerified B"
proof -
  obtain S B a1 b1 where 1: "ss_open cp ec (sl_share a, sb_share b) = (Inr (), S, B)"
    "b1 = b\<lparr>sb_share := B\<rparr>" and
    r1: "and_then (on_timed (open_commitment cp)) (\<lambda>_.
      seq (on_keys (for_each [0..<par_L P] (\<lambda>i. at_index i (sha_open cp))))
      (seq (on_signature (sha_open cp))
      (seq (\<lambda>(a, b). (verifyKeys cp (par_L P) b, a, b))
           (modify (\<lambda>(a, b). (a, sb_setOpenVerified (B_getOpenVerified (sb_share b)) b))))))
      (a1, b1) = (Inr (), a', b')"
    using assms by (auto simp: sk_open_def seq_Inr on_parts_Inr)
  obtain rc a2 b2 where 2: "b2 = b1\<lparr>sb_receiver := rc\<rparr>" and
    r2: "seq (on_keys (for_each [0..<par_L P] (\<lambda>i. at_index i (sha_open cp))))
      (seq (on_signature (sha_open cp))
      (seq (\<lambda>(a, b). (verifyKeys cp (par_L P) b, a, b))
           (modify (\<lambda>(a, b). (a, sb_setOpenVerified (B_getOpenVerified (sb_share b)) b)))))
      (a2, b2) = (Inr (), a', b')"
    using r1 by (auto simp: and_then_Inr on_parts_Inr)
  obtain s v a3 b3 where 3: "for_each [0..<par_L P] (\<lambda>i. at_index i (sha_open cp))
      (sl_keys_commits a2, sb_keys_commits b2) = (Inr (), s, v)" "b3 = b2\<lparr>sb_keys_commits := v\<rparr>" and
    r3: "seq (on_signature (sha_open cp))
      (seq (\<lambda>(a, b). (verifyKeys cp (par_L P) b, a, b))
           (modify (\<lambda>(a, b). (a, sb_setOpenVerified (B_getOpenVerified (sb_share b)) b))))
      (a3, b3) = (Inr (), a', b')"
    using r2 by (auto simp: seq_Inr [of "on_keys f" for f] on_parts_Inr)
  obtain s4 v4 a4 b4 where 4: "sha_open cp (sl_signature_commit a3, sb_signature_commit b3) = (Inr (), s4, v4)"
    "b4 = b3\<lparr>sb_signature_commit := v4\<rparr>" and
    r4: "seq (\<lambda>(a, b). (verifyKeys cp (par_L P) b, a, b))
           (modify (\<lambda>(a, b). (a, sb_setOpenVerified (B_getOpenVerified (sb_share b)) b)))
      (a4, b4) = (Inr (), a', b')"
    using r3 by (auto simp: seq_Inr [of "on_signature f" for f] on_parts_Inr)
  have 5: "verifyKeys cp (par_L P) b4 = Inr ()"
    "b' = sb_setOpenVerified (B_getOpenVerified (sb_share b4)) b4"
    using r4 by (auto simp: seq_Inr)
  have "sha_checked cp (v ! i)" if "i < par_L P" for i
    using each_index_partial [OF 3(1)] that sha_open_checked by simp blast
  moreover have "verifyKeys cp (par_L P) b' = Inr ()"
    using 5 by (simp add: verifyKeys_def sb_setOpenVerified_def)
  ultimately show ?thesis
    using 1 2 3(2) 4(2) 5 sha_open_checked [OF 4(1)] by (auto simp: sb_setOpenVerified_def)
qed

interpretation skey: sound_opening "sk_open cp ec P" sb_getOpenVerified "sk_checked cp ec P" for cp ec P
proof
  fix a b a' b'
  assume o: "sk_open cp ec P (a, b) = (Inr (), a', b')" and v: "sb_getOpenVerified b'"
  obtain S B where "ss_open cp ec (sl_share a, sb_share b) = (Inr (), S, B)" "sb_share b' = B"
    "sha_checked cp (sb_signature_commit b')" "\<forall>i<par_L P. sha_checked cp (sb_keys_commits b' ! i)"
    "verifyKeys cp (par_L P) b' = Inr ()" "sb_open_verified b' = B_getOpenVerified B"
    using sk_open_Inr [OF o] by blast
  then show "sk_checked cp ec P b'"
    using v sigs.reveal_checked by (auto simp: sk_checked_def sb_getOpenVerified_def verifyKeys_Inr)
qed

section \<open>Two honest parties\<close>

text \<open>Before \<open>exec\<close>: the shares agree, and the committer and the arrays are as constructed.\<close>

definition sk_fresh ::
    "cryptopp \<Rightarrow> ec \<Rightarrow> params \<Rightarrow> byte list \<Rightarrow> key_draw \<Rightarrow> sigkey_draw \<Rightarrow> single_seller \<Rightarrow> single_buyer \<Rightarrow> bool" where
  "sk_fresh cp ec P t2 kd dr a b \<longleftrightarrow>
     curve_setup cp ec \<and>
     parties_ok cp ec t2 (S_set_data t2 (sl_share a)) (B_set_data t2 (sb_share b)) \<and>
     keys_agreed ec kd (sl_share a) (sb_share b) \<and>
     draws_ok ec (pl_n (S_paillier (sl_share a))) kd (sk_sig dr) \<and>
     nonce_r ec (sk_sig dr) \<noteq> 0 \<and> nonce_x ec (sk_sig dr) < ec_order ec \<and>
     \<not> ec_order ec dvd message_int cp ec t2 + nonce_r ec (sk_sig dr) * shared_key kd \<and>
     commiter_ok (sl_commiter a) \<and> 0 \<le> sk_h dr \<and> sk_h dr < cm_n (sl_commiter a) \<and>
     length (sl_keys_commits a) = par_L P \<and> length (sb_keys_commits b) = par_L P"

text \<open>After the signature, and after the commitments to keys derived from some byte string.\<close>

definition sk_signed :: "cryptopp \<Rightarrow> ec \<Rightarrow> params \<Rightarrow> single_seller \<Rightarrow> single_buyer \<Rightarrow> bool" where
  "sk_signed cp ec P a b \<longleftrightarrow>
     ss_ready cp ec (sl_share a) (sb_share b) \<and>
     (\<exists>m. receiver_open cp (sb_receiver b) (commiter_open (sl_commiter a)) = Inr m) \<and>
     length (sl_keys_commits a) = par_L P \<and> length (sb_keys_commits b) = par_L P"

definition sk_ready :: "cryptopp \<Rightarrow> ec \<Rightarrow> params \<Rightarrow> single_seller \<Rightarrow> single_buyer \<Rightarrow> bool" where
  "sk_ready cp ec P a b \<longleftrightarrow> sk_signed cp ec P a b \<and>
     sha_ready cp (sl_signature_commit a) (sb_signature_commit b) \<and>
     (\<forall>i<par_L P. sha_ready cp (sl_keys_commits a ! i) (sb_keys_commits b ! i) \<and>
        snd_m (sl_keys_commits a ! i) = genKeys cp (par_L P) (snd_m (sl_signature_commit a)) ! i)"

lemma sk_sign_run:
  assumes fresh: "sk_fresh cp ec P t2 kd dr a b"
  shows "\<exists>a' b'. sk_sign cp ec P lib_verify t2 dr (a, b) = (Inr (), a', b') \<and> sk_signed cp ec P a' b' \<and>
    keys_agreed ec kd (sl_share a') (sb_share b') \<and> S_r (sl_share a') = nonce_r ec (sk_sig dr) \<and>
    B_curve (sb_share b') = ec \<and>
    (\<exists>bits. integer_to_bits cp (draw_ds kd) = Inr bits \<and>
       tc_sealed cp (tr_com (sb_receiver b')) (commiter_open (sl_commiter a')) bits)"
proof -
  let ?S = "S_set_data t2 (sl_share a)" and ?B = "B_set_data t2 (sb_share b)"
  have cset: "curve_setup cp ec" and ok: "parties_ok cp ec t2 ?S ?B" and ag: "keys_agreed ec kd ?S ?B"
    and dr: "draws_ok ec (pl_n (S_paillier ?S)) kd (sk_sig dr)"
    and com: "commiter_ok (sl_commiter a)" "0 \<le> sk_h dr" "sk_h dr < cm_n (sl_commiter a)"
    using fresh by (simp_all add: sk_fresh_def keys_agreed_def S_set_data_def B_set_data_def)
  obtain S B where 1: "ss_exec cp ec (sk_sig dr) (?S, ?B) = (Inr (), S, B)"
    "S_r S = nonce_r ec (sk_sig dr)" "keys_agreed ec kd S B" "parties_ok cp ec t2 S B"
    "verify_signature cp ec (B_Q B) t2 (S_r S) (S_s S) = Inr True"
    using ss_exec_run [OF cset ok ag dr] fresh by (auto simp: sk_fresh_def)
  then have ready: "ss_ready cp ec S B" by (simp add: ss_ready_def parties_ok_def)
  have "0 \<le> draw_ds kd" using dr by (simp add: draws_ok_def)
  then obtain bits where bits: "integer_to_bits cp (draw_ds kd) = Inr bits"
    by (simp add: integer_to_bits_def Let_def)
  obtain c where c: "commiter_commit cp (sk_h dr) (par_K P) bits (sl_commiter a)
      = (Inr c, (sl_commiter a)\<lparr>cm_com := c\<rparr>)" "tc_sealed cp c (cm_p (sl_commiter a)) bits"
    using commit_sealed [OF curve_setup_laws(1) [OF cset] com] by blast
  let ?a = "a\<lparr>sl_share := S, sl_commiter := (sl_commiter a)\<lparr>cm_com := c\<rparr>\<rparr>"
  let ?b = "b\<lparr>sb_share := B, sb_receiver := \<lparr>tr_com = c\<rparr>\<rparr>"
  have rc: "accept_commitment c r = \<lparr>tr_com = c\<rparr>" for r by (cases r) (simp add: accept_commitment_def)
  have ds: "S_ds S = draw_ds kd" using 1(3) by (simp add: keys_agreed_def)
  have "sk_sign cp ec P lib_verify t2 dr (a, b) = (Inr (), ?a, ?b)"
    using 1(1) bits c(1)
    by (simp add: sk_sign_def seq_def and_then_def set_signed_data_def on_shares_def on_timed_def ds
        tc_commit_def rc)
  then show ?thesis
    using ready 1 c(2) bits fresh
    by (auto simp: sk_signed_def sk_fresh_def tc_sealed_def commiter_open_def parties_ok_def)
qed

text \<open>The time lock of a buyer holds \<open>ds\<close>, which with its own share makes the private key of the shared point.\<close>

definition key_sealed :: "cryptopp \<Rightarrow> ec \<Rightarrow> int \<Rightarrow> single_buyer \<Rightarrow> bool" where
  "key_sealed cp ec ds b \<longleftrightarrow> 0 \<le> ds \<and> B_curve (sb_share b) = ec \<and>
     (\<exists>bits. integer_to_bits cp ds = Inr bits \<and> force_open cp (sb_receiver b) = Some (Inr bits)) \<and>
     ec_multiply ec (ds * B_db (sb_share b) mod ec_order ec) (ec_generator ec) = B_Q (sb_share b)"

lemma sk_sign_sealed:
  assumes fresh: "sk_fresh cp ec P t2 kd dr a b"
  shows "\<exists>a' b'. sk_sign cp ec P lib_verify t2 dr (a, b) = (Inr (), a', b') \<and> sk_signed cp ec P a' b' \<and>
    key_sealed cp ec (draw_ds kd) b'"
proof -
  have cset: "curve_setup cp ec" and dr: "0 \<le> draw_ds kd" "0 \<le> draw_db kd"
    using fresh by (simp_all add: sk_fresh_def draws_ok_def)
  note laws = curve_setup_laws [OF cset]
  obtain a' b' bits where 1: "sk_sign cp ec P lib_verify t2 dr (a, b) = (Inr (), a', b')" "sk_signed cp ec P a' b'"
    "keys_agreed ec kd (sl_share a') (sb_share b')" "B_curve (sb_share b') = ec"
    and bits: "integer_to_bits cp (draw_ds kd) = Inr bits"
      "tc_sealed cp (tr_com (sb_receiver b')) (commiter_open (sl_commiter a')) bits"
    using sk_sign_run [OF fresh] by blast
  have "force_open cp (sb_receiver b') = Some (Inr bits)"
    using bits(2) by (cases "sb_receiver b'") (simp add: tc_sealed_def)
  moreover have "ec_multiply ec (draw_ds kd * B_db (sb_share b') mod ec_order ec) (ec_generator ec) = B_Q (sb_share b')"
  proof -
    have "0 \<le> draw_ds kd * draw_db kd mod ec_order ec" "0 \<le> draw_ds kd * draw_db kd"
      using laws(6) dr by simp_all
    then show ?thesis
      using 1(3) ec_generator_eq_iff [OF laws(4)] by (simp add: keys_agreed_def shared_key_def)
  qed
  ultimately have "key_sealed cp ec (draw_ds kd) b'" using 1(4) dr bits(1) by (simp add: key_sealed_def)
  with 1(1,2) show ?thesis by blast
qed

lemma key_sealed_opens:
  assumes "key_sealed cp ec ds b" "encoding_laws cp" "8 * min_encoded_size cp ds < 2 ^ 32"
  shows "\<exists>bits. force_open cp (sb_receiver b) = Some (Inr bits) \<and> bits_to_integer cp bits = Inr ds"
  using assms bits_to_integer_back [OF assms(2) _ assms(3)] unfolding key_sealed_def by blast

lemma sk_commit_run:
  assumes sg: "sk_signed cp ec P a b" and set: "setup_keys a = setup_commits cp (par_L P) x a"
  shows "\<exists>a' b'. sk_commit cp P setup_keys dr (a, b) = (Inr (), a', b') \<and> sk_ready cp ec P a' b' \<and>
    snd_m (sl_signature_commit a') = x \<and> sl_share a' = sl_share a \<and>
    sb_share b' = sb_share b \<and> sb_receiver b' = sb_receiver b"
proof -
  let ?L = "par_L P" and ?a = "setup_commits cp (par_L P) x a"
  have len: "length (sl_keys_commits a) = ?L" "length (sb_keys_commits b) = ?L"
    using sg by (simp_all add: sk_signed_def)
  note f = setup_commits_fields [OF len(1)]
  let ?f = "\<lambda>i. seq sha_init (sha_exec cp (sk_seeds dr ! i))"
  have run: "\<exists>s' r'. ?f i (s, r) = (Inr (), s', r') \<and> sha_ready cp s' r' \<and> snd_m s' = snd_m s" for i s r
    by (simp add: seq_def and_then_def sha_init_def sha_exec_def sha_ready_def Let_def same_prefix_iff)
  have "\<exists>t. for_each [0..<?L] (\<lambda>i. at_index i (?f i)) (sl_keys_commits ?a, sb_keys_commits b) = (Inr (), t)"
  proof (rule each_index_total)
    fix i
    show "\<exists>s' r'. ?f i (fst (sl_keys_commits ?a, sb_keys_commits b) ! i,
        snd (sl_keys_commits ?a, sb_keys_commits b) ! i) = (Inr (), s', r')"
      using run by blast
  qed (simp_all add: f(4) len(2))
  then obtain s v where sv: "for_each [0..<?L] (\<lambda>i. at_index i (?f i))
      (sl_keys_commits ?a, sb_keys_commits b) = (Inr (), s, v)" by auto
  note part = each_index_partial [OF sv, simplified]
  have keys: "sha_ready cp (s ! i) (v ! i) \<and> snd_m (s ! i) = genKeys cp ?L x ! i" if "i < ?L" for i
    using part run [of i "sl_keys_commits ?a ! i" "sb_keys_commits b ! i"] f(5) [OF that] that by auto
  obtain s1 r1 where 1: "sha_exec cp (sk_seed dr) (sl_signature_commit ?a, sb_signature_commit b) = (Inr (), s1, r1)"
    "snd_m s1 = x" by (simp add: sha_exec_def Let_def f(3))
  let ?a' = "?a\<lparr>sl_keys_commits := s, sl_signature_commit := s1\<rparr>"
  let ?b' = "b\<lparr>sb_keys_commits := v, sb_signature_commit := r1\<rparr>"
  have "sk_commit cp P setup_keys dr (a, b) = (Inr (), ?a', ?b')"
    using sv 1(1)
    by (simp add: sk_commit_def seq_at_index) (simp add: seq_def and_then_def on_keys_def on_signature_def
        sha_init_def set)
  moreover have "sk_ready cp ec P ?a' ?b'"
    using sg f(1,2,4) keys part len sha_exec_ready [OF 1(1)] 1(2) by (simp add: sk_ready_def sk_signed_def)
  ultimately show ?thesis using 1(2) f(1) by auto
qed

lemma sk_open_run:
  assumes ready: "sk_ready cp ec P a b"
  shows "\<exists>a' b'. sk_open cp ec P (a, b) = (Inr (), a', b') \<and> sb_getOpenVerified b' \<and>
    rcv_m (sb_signature_commit b') = snd_m (sl_signature_commit a)"
proof -
  let ?L = "par_L P"
  have sg: "sk_signed cp ec P a b" and sig: "sha_ready cp (sl_signature_commit a) (sb_signature_commit b)"
    and keys: "\<And>i. i < ?L \<Longrightarrow> sha_ready cp (sl_keys_commits a ! i) (sb_keys_commits b ! i)"
      "\<And>i. i < ?L \<Longrightarrow> snd_m (sl_keys_commits a ! i) = genKeys cp ?L (snd_m (sl_signature_commit a)) ! i"
    using ready by (simp_all add: sk_ready_def)
  have len: "length (sl_keys_commits a) = ?L" "length (sb_keys_commits b) = ?L"
    and sh: "ss_ready cp ec (sl_share a) (sb_share b)"
    and rc: "\<exists>m. receiver_open cp (sb_receiver b) (commiter_open (sl_commiter a)) = Inr m"
    using sg by (simp_all add: sk_signed_def)
  obtain S B where 1: "ss_open cp ec (sl_share a, sb_share b) = (Inr (), S, B)" "B_getOpenVerified B"
    using sig.open_verified [OF sh] by blast
  obtain m where 2: "receiver_open cp (sb_receiver b) (commiter_open (sl_commiter a)) = Inr m" using rc by blast
  have "\<exists>t. for_each [0..<?L] (\<lambda>i. at_index i (sha_open cp)) (sl_keys_commits a, sb_keys_commits b) = (Inr (), t)"
  proof (rule each_index_total)
    fix i assume "i < ?L"
    then show "\<exists>s' r'. sha_open cp (fst (sl_keys_commits a, sb_keys_commits b) ! i,
        snd (sl_keys_commits a, sb_keys_commits b) ! i) = (Inr (), s', r')"
      using keys(1) by (simp add: sha_open_Inr)
  qed (simp_all add: len)
  then obtain s v where 3: "for_each [0..<?L] (\<lambda>i. at_index i (sha_open cp))
      (sl_keys_commits a, sb_keys_commits b) = (Inr (), s, v)" by auto
  have v: "rcv_m (v ! i) = genKeys cp ?L (snd_m (sl_signature_commit a)) ! i" if "i < ?L" for i
    using each_index_partial [OF 3] that keys(2) [OF that] by (auto simp: sha_open_Inr)
  obtain r where 4: "sha_open cp (sl_signature_commit a, sb_signature_commit b)
      = (Inr (), sl_signature_commit a, r)" "rcv_m r = snd_m (sl_signature_commit a)"
    using sig by (auto simp: sha_open_Inr)
  let ?b = "b\<lparr>sb_share := B, sb_keys_commits := v, sb_signature_commit := r\<rparr>"
  have 5: "verifyKeys cp ?L ?b = Inr ()" using v 4(2) by (simp add: verifyKeys_Inr Let_def)
  show ?thesis
    using 1 2 3 4 5
    by (simp add: sk_open_def seq_def and_then_def on_shares_def on_timed_def on_keys_def on_signature_def
        open_commitment_def sb_setOpenVerified_def sb_getOpenVerified_def)
qed

lemma sk_exec_run:
  assumes "sk_fresh cp ec P t2 kd dr a b"
  shows "\<exists>a' b'. sk_exec cp ec P lib_verify t2 dr (a, b) = (Inr (), a', b') \<and> sk_ready cp ec P a' b' \<and>
    snd_m (sl_signature_commit a') = S_get_signature cp (sl_share a') \<and> key_sealed cp ec (draw_ds kd) b'"
proof -
  obtain a1 b1 where 1: "sk_sign cp ec P lib_verify t2 dr (a, b) = (Inr (), a1, b1)" "sk_signed cp ec P a1 b1"
    "key_sealed cp ec (draw_ds kd) b1"
    using sk_sign_sealed [OF assms] by blast
  obtain a2 b2 where "sk_commit cp P (genKeysAndSetupCommits cp (par_L P)) dr (a1, b1) = (Inr (), a2, b2)"
    "sk_ready cp ec P a2 b2" "snd_m (sl_signature_commit a2) = S_get_signature cp (sl_share a1)"
    "sl_share a2 = sl_share a1" "sb_share b2 = sb_share b1" "sb_receiver b2 = sb_receiver b1"
    using sk_commit_run [OF 1(2), of "genKeysAndSetupCommits cp (par_L P)" "S_get_signature cp (sl_share a1)" dr]
    by (auto simp: genKeysAndSetupCommits_def)
  then show ?thesis using 1(1,3) by (simp add: sk_exec_def seq_def and_then_def key_sealed_def)
qed

interpretation skh: honest_protocol
  "\<lambda>i. sk_init" "\<lambda>i. sk_exec cp ec P lib_verify t2 (dr i)" "sk_open cp ec P" sb_getOpenVerified
  "\<lambda>i. sk_fresh cp ec P t2 (kd i) (dr i)" "\<lambda>i. sk_ready cp ec P" for cp ec P lib_verify t2 dr kd
proof
  fix i a b
  show "\<exists>a' b'. seq sk_init (sk_exec cp ec P lib_verify t2 (dr i)) (a, b) = (Inr (), a', b') \<and> sk_ready cp ec P a' b'"
    if f: "sk_fresh cp ec P t2 (kd i) (dr i) a b"
  proof -
    obtain a' b' where "sk_exec cp ec P lib_verify t2 (dr i) (a, b) = (Inr (), a', b')" "sk_ready cp ec P a' b'"
      using sk_exec_run [OF f] by blast
    then show ?thesis by (simp add: seq_def and_then_def sk_init_def)
  qed
  show "\<exists>a' b'. sk_open cp ec P (a, b) = (Inr (), a', b') \<and> sb_getOpenVerified b'" if "sk_ready cp ec P a b"
    using sk_open_run [OF that] by blast
qed

section \<open>An instance for the witnesses\<close>

definition ref_kd :: key_draw where
  "ref_kd = \<lparr>draw_ds = 1, draw_db = 1\<rparr>"

definition ref_dr :: sigkey_draw where
  "ref_dr = \<lparr>sk_sig = \<lparr>draw_ks = 1, draw_rs = 1, draw_kb = 1, draw_r1 = 1, draw_u = 0, draw_r2 = 1\<rparr>,
     sk_h = 5, sk_seeds = [[], []], sk_seed = []\<rparr>"

definition ref_params :: params where
  "ref_params = \<lparr>par_T = 2, par_K = 3, par_L = 2, par_R = 1\<rparr>"

lemma ref_sk_fresh:
  "\<exists>a b. sk_fresh ref_cryptopp (ref_ec 0) ref_params (replicate 32 1) ref_kd ref_dr a b"
proof -
  obtain S B where ok: "parties_ok ref_cryptopp (ref_ec 0) (replicate 32 1) S B"
    using ref_parties by blast
  have c: "S_curve S = ref_ec 0" "B_curve B = ref_ec 0" using ok by (simp_all add: parties_ok_def)
  have setup0: "curve_setup ref_cryptopp (ref_ec 0)" by (rule ref_curve_setup) simp
  have "0 \<le> draw_ds ref_kd" "0 \<le> draw_db ref_kd" by (simp_all add: ref_kd_def)
  from ss_init_agrees [OF setup0 c this] ok
  obtain S' B' where 1: "keys_agreed (ref_ec 0) ref_kd S' B'"
    "parties_ok ref_cryptopp (ref_ec 0) (replicate 32 1) S' B'" by blast
  have data: "S_set_data (replicate 32 1) S' = S'" "B_set_data (replicate 32 1) B' = B'"
    using 1(2) by (simp_all add: parties_ok_def S_set_data_def B_set_data_def)
  have "prime_integer 7" "prime_integer 11" by (simp_all add: prime_integer_code upto_rec_numeral)
  then have com: "commiter_ok \<lparr>cm_p = 7, cm_q = 11, cm_n = 77, cm_phi = 60, cm_com = c\<rparr>" for c
    by (simp add: commiter_ok_def)
  have x: "nonce_x (ref_ec 0) (sk_sig ref_dr) = 1"
    by (simp add: nonce_x_def ref_dr_def ref_ec_simps ref_point_def)
  have r: "nonce_r (ref_ec 0) (sk_sig ref_dr) = 1" unfolding nonce_r_def x by (simp add: ref_ec_simps)
  have d: "draws_ok (ref_ec 0) pn ref_kd (sk_sig ref_dr)" for pn
    by (simp add: draws_ok_def ref_kd_def ref_dr_def ref_ec_simps)
  let ?s = "\<lparr>snd_m = [], snd_seed = [], snd_com = []\<rparr>"
  let ?r = "\<lparr>rcv_open_verified = False, rcv_m = [], rcv_seed = [], rcv_com = []\<rparr>"
  let ?c = "\<lparr>tc_K = 0, tc_n = 0, tc_h = 0, tc_S = [], tc_l = 0\<rparr>"
  let ?a = "\<lparr>sl_keys = [], sl_share = S',
     sl_commiter = \<lparr>cm_p = 7, cm_q = 11, cm_n = 77, cm_phi = 60, cm_com = ?c\<rparr>,
     sl_keys_commits = replicate 2 ?s, sl_signature_commit = ?s\<rparr>"
  let ?b = "\<lparr>sb_open_verified = False, sb_share = B', sb_receiver = \<lparr>tr_com = ?c\<rparr>,
     sb_keys_commits = replicate 2 ?r, sb_signature_commit = ?r\<rparr>"
  have "sk_fresh ref_cryptopp (ref_ec 0) ref_params (replicate 32 1) ref_kd ref_dr ?a ?b"
    using 1 data com d setup0 unfolding sk_fresh_def x r
    by (simp add: ref_message_int ref_params_def shared_key_def) (simp add: ref_kd_def ref_dr_def ref_ec_simps)
  then show ?thesis by blast
qed

lemma ref_sk_run:
  "\<exists>p v p' v'. cut_and_choose (\<lambda>i. sk_init)
       (\<lambda>i. sk_exec ref_cryptopp (ref_ec 0) ref_params (\<lambda>Q m s. True) (replicate 32 1) ref_dr)
       (sk_open ref_cryptopp (ref_ec 0) ref_params) sb_getOpenVerified single_seller_cheat 2 1 (\<lambda>j. 2) (-1) (p, v)
     = (Inr (), p', v') \<and> vf_res v' \<and> vf_i v = [0]"
proof -
  obtain a b where fresh: "sk_fresh ref_cryptopp (ref_ec 0) ref_params (replicate 32 1) ref_kd ref_dr a b"
    using ref_sk_fresh by blast
  let ?p = "\<lparr>pv_v = replicate 2 a\<rparr>" and ?v = "\<lparr>vf_v = replicate 2 b, vf_i = [0], vf_res = False\<rparr>"
  have "\<exists>p' v'. cut_and_choose (\<lambda>i. sk_init)
       (\<lambda>i. sk_exec ref_cryptopp (ref_ec 0) ref_params (\<lambda>Q m s. True) (replicate 32 1) ref_dr)
       (sk_open ref_cryptopp (ref_ec 0) ref_params) sb_getOpenVerified single_seller_cheat 2 1 (\<lambda>j. 2) (-1) (?p, ?v)
     = (Inr (), p', v') \<and> vf_res v'"
    by (rule skh.cut_and_choose_accepts [where kd = "\<lambda>i. ref_kd"])
      (use fresh in \<open>simp_all add: good_indices_def\<close>)
  moreover have "vf_i ?v = [0]" by simp
  ultimately show ?thesis by blast
qed

section \<open>Properties\<close>

text \<open>
  C6: when the buyer accepts the first cut-and-choose, then for every execution it did not keep the
  buyer holds data with a signature that verifies under the shared key, and openings that match the
  commitments it was given, of a byte string and of keys that are prefixes of the keys derived from
  it. This holds for any seller.
\<close>

theorem signature_keys_sound:
  assumes "cut_and_choose init exec (sk_open cp ec P) sb_getOpenVerified cheat_op T R past_end (-1) (p, v)
      = (Inr (), p', v')"
    and "vf_res v'" "i < T" "int i \<notin> set (vf_i v)"
  shows "let b = vf_v v' ! i; sig = rcv_m (sb_signature_commit b)
    in (\<exists>r s. verify_signature cp ec (B_Q (sb_share b)) (B_data (sb_share b)) r s = Inr True)
     \<and> sha_checked cp (sb_signature_commit b)
     \<and> (\<forall>k<par_L P. sha_checked cp (sb_keys_commits b ! k) \<and>
          take (length (rcv_m (sb_keys_commits b ! k))) (sha256_digest cp (sig @ to_bytes cp (int k)))
            = rcv_m (sb_keys_commits b ! k))"
  using skey.cut_and_choose_checked [OF assms]
  by (simp add: sk_checked_def ss_signed_def Let_def genKeys_nth)

theorem signature_keys_sound_witness:
  "\<exists>b :: single_buyer. \<exists>r s. verify_signature ref_cryptopp (ref_ec 0) (B_Q (sb_share b)) (B_data (sb_share b)) r s
     = Inr True"
proof -
  obtain p v p' v' where run: "cut_and_choose (\<lambda>i. sk_init)
       (\<lambda>i. sk_exec ref_cryptopp (ref_ec 0) ref_params (\<lambda>Q m s. True) (replicate 32 1) ref_dr)
       (sk_open ref_cryptopp (ref_ec 0) ref_params) sb_getOpenVerified single_seller_cheat 2 1 (\<lambda>j. 2) (-1) (p, v)
     = (Inr (), p', v')" "vf_res v'" "vf_i v = [0]"
    using ref_sk_run by blast
  show ?thesis using signature_keys_sound [OF run(1,2), of 1] run(3) by (auto simp: Let_def)
qed

text \<open>
  C32: honest sellers are accepted: from parties that agree on their shared keys, every execution
  ends, and the openings are verified, when the read past the end gives no execution's index.
\<close>

theorem signature_keys_complete:
  assumes "good_indices T R (vf_i v)" "vf_i v \<noteq> []"
    and "T \<le> length (pv_v p)" "T \<le> length (vf_v v)"
    and "\<And>i. i < T \<Longrightarrow> sk_fresh cp ec P t2 (kd i) (dr i) (pv_v p ! i) (vf_v v ! i)"
    and "\<And>j. past_end j \<notin> {0..<int T}"
  shows "\<exists>p' v'. cut_and_choose (\<lambda>i. sk_init) (\<lambda>i. sk_exec cp ec P lib_verify t2 (dr i)) (sk_open cp ec P)
      sb_getOpenVerified single_seller_cheat T R past_end (-1) (p, v) = (Inr (), p', v') \<and> vf_res v'"
  using assms by (rule skh.cut_and_choose_accepts)

theorem signature_keys_complete_witness:
  "\<exists>p v p' v'. cut_and_choose (\<lambda>i. sk_init)
       (\<lambda>i. sk_exec ref_cryptopp (ref_ec 0) ref_params (\<lambda>Q m s. False) (replicate 32 1) ref_dr)
       (sk_open ref_cryptopp (ref_ec 0) ref_params) sb_getOpenVerified single_seller_cheat 2 1 (\<lambda>j. -1) (-1) (p, v)
     = (Inr (), p', v') \<and> vf_res v'"
proof -
  obtain a b where fresh: "sk_fresh ref_cryptopp (ref_ec 0) ref_params (replicate 32 1) ref_kd ref_dr a b"
    using ref_sk_fresh by blast
  let ?p = "\<lparr>pv_v = replicate 2 a\<rparr>" and ?v = "\<lparr>vf_v = replicate 2 b, vf_i = [1], vf_res = False\<rparr>"
  have "\<exists>p' v'. cut_and_choose (\<lambda>i. sk_init)
       (\<lambda>i. sk_exec ref_cryptopp (ref_ec 0) ref_params (\<lambda>Q m s. False) (replicate 32 1) ref_dr)
       (sk_open ref_cryptopp (ref_ec 0) ref_params) sb_getOpenVerified single_seller_cheat 2 1 (\<lambda>j. -1) (-1) (?p, ?v)
     = (Inr (), p', v') \<and> vf_res v'"
    by (rule signature_keys_complete [where kd = "\<lambda>i. ref_kd"])
      (use fresh in \<open>simp_all add: good_indices_def\<close>)
  then show ?thesis by blast
qed

text \<open>
  C34: the opening does not look at the relation between the signature and the committed byte string.
  A seller that derives its keys from any string \<open>x\<close> instead of the signature passes it, so the
  signature on the blockchain need not give the buyer the keys.
\<close>

theorem foreign_signature_accepted:
  assumes "sk_fresh cp ec P t2 kd dr a b"
  shows "\<exists>a' b' a'' b''. seq (sk_sign cp ec P lib_verify t2 dr)
      (sk_commit cp P (setup_commits cp (par_L P) x) dr) (a, b) = (Inr (), a', b')
    \<and> sk_open cp ec P (a', b') = (Inr (), a'', b'') \<and> sb_getOpenVerified b''
    \<and> rcv_m (sb_signature_commit b'') = x"
proof -
  obtain a1 b1 where 1: "sk_sign cp ec P lib_verify t2 dr (a, b) = (Inr (), a1, b1)" "sk_signed cp ec P a1 b1"
    using sk_sign_run [OF assms] by blast
  obtain a2 b2 where 2: "sk_commit cp P (setup_commits cp (par_L P) x) dr (a1, b1) = (Inr (), a2, b2)"
    "sk_ready cp ec P a2 b2" "snd_m (sl_signature_commit a2) = x"
    using sk_commit_run [OF 1(2), of "setup_commits cp (par_L P) x" x dr] by auto
  then show ?thesis using 1(1) sk_open_run [OF 2(2)] by (auto simp: seq_def and_then_def)
qed

theorem foreign_signature_accepted_witness:
  "\<exists>a' b' a'' b''. sk_open ref_cryptopp (ref_ec 0) ref_params (a', b') = (Inr (), a'', b'')
    \<and> sb_getOpenVerified b'' \<and> rcv_m (sb_signature_commit b'') = [42]"
  using ref_sk_fresh foreign_signature_accepted by blast

text \<open>
  C33: the time lock holds the seller's key share. Opening the buyer's receiver by squarings gives
  bits that decode to \<open>ds\<close>, and \<open>ds * db\<close> reduced by the group order is the private key of the point
  both parties share, with which the buyer can take its payment back.
\<close>

theorem time_lock_recovers_key:
  assumes fresh: "sk_fresh cp ec P t2 kd dr a b"
    and size: "8 * min_encoded_size cp (draw_ds kd) < 2 ^ 32"
  shows "\<exists>a' b' bits ds. sk_sign cp ec P lib_verify t2 dr (a, b) = (Inr (), a', b')
    \<and> force_open cp (sb_receiver b') = Some (Inr bits) \<and> bits_to_integer cp bits = Inr ds
    \<and> ec_multiply ec (ds * B_db (sb_share b') mod ec_order ec) (ec_generator ec) = B_Q (sb_share b')"
proof -
  have "encoding_laws cp" using fresh by (simp add: sk_fresh_def curve_setup_def)
  then show ?thesis
    using sk_sign_sealed [OF fresh, of lib_verify] key_sealed_opens [OF _ _ size] unfolding key_sealed_def by blast
qed

theorem time_lock_recovers_key_witness:
  "\<exists>b' :: single_buyer. \<exists>bits ds. force_open ref_cryptopp (sb_receiver b') = Some (Inr bits)
    \<and> bits_to_integer ref_cryptopp bits = Inr ds
    \<and> ec_multiply (ref_ec 0) (ds * B_db (sb_share b') mod 5) (ec_generator (ref_ec 0)) = B_Q (sb_share b')"
proof -
  obtain a b where f: "sk_fresh ref_cryptopp (ref_ec 0) ref_params (replicate 32 1) ref_kd ref_dr a b"
    using ref_sk_fresh by blast
  have "8 * min_encoded_size ref_cryptopp (draw_ds ref_kd) < 2 ^ 32"
    by (simp add: ref_kd_def ref_simps ref_size.simps)
  from time_lock_recovers_key [OF f this, of "\<lambda>Q m s. True"] show ?thesis
    unfolding ref_ec_simps(4) by blast
qed

text \<open>
  C36: what \<open>verifyKeys\<close> accepts: every revealed key is a prefix of the expected one. Keys that are
  empty, and so open nothing, are accepted for every byte string.
\<close>

theorem verifyKeys_accepts_prefixes:
  "(verifyKeys cp L b = Inr () \<longleftrightarrow> list_all (\<lambda>i. take (length (rcv_m (sb_keys_commits b ! i)))
        (sha256_digest cp (rcv_m (sb_signature_commit b) @ to_bytes cp (int i))) = rcv_m (sb_keys_commits b ! i)) [0..<L])
   \<and> verifyKeys cp L (b\<lparr>sb_keys_commits := replicate L (r\<lparr>rcv_m := []\<rparr>)\<rparr>) = Inr ()"
  by (simp add: verifyKeys_Inr Let_def genKeys_nth list_all_iff Ball_def)

text \<open>
  The keys of one signature are digests of different byte strings: two equal keys are a SHA-256
  collision.
\<close>

theorem genKeys_collision:
  assumes enc: "encoding_laws cp" and ij: "i < L" "j < L" "i \<noteq> j"
    and eq: "genKeys cp L sig ! i = genKeys cp L sig ! j"
  shows "sig @ to_bytes cp (int i) \<noteq> sig @ to_bytes cp (int j)
    \<and> sha256_digest cp (sig @ to_bytes cp (int i)) = sha256_digest cp (sig @ to_bytes cp (int j))"
proof -
  have "decode_bytes cp (to_bytes cp (int i)) \<noteq> decode_bytes cp (to_bytes cp (int j))"
    using enc ij(3) by (simp add: decode_to_bytes)
  then have "to_bytes cp (int i) \<noteq> to_bytes cp (int j)" by metis
  then show ?thesis using eq ij(1,2) by (simp add: genKeys_nth)
qed

theorem genKeys_collision_witness:
  "genKeys ref_cryptopp 2 (replicate 32 7) ! 0 = genKeys ref_cryptopp 2 (replicate 32 7) ! 1 \<and>
   sha256_digest ref_cryptopp (replicate 32 7 @ to_bytes ref_cryptopp (int 0))
     = sha256_digest ref_cryptopp (replicate 32 7 @ to_bytes ref_cryptopp (int 1))"
proof -
  have "genKeys ref_cryptopp 2 (replicate 32 7) ! 0 = genKeys ref_cryptopp 2 (replicate 32 7) ! 1"
    by (simp add: genKeys_nth ref_simps)
  with genKeys_collision [OF ref_laws(1) _ _ _ this] show ?thesis by simp
qed

end
