(* ===== verification/Sell_Parties.thy ===== *)
theory Sell_Parties
  imports Signature_Key Square_Root
begin

text \<open>
  main/sell_information.h and the members of \<open>Seller\<close> and \<open>Buyer\<close> in sell_information.cpp up to
  \<open>make_payment\<close>: the parties of the whole exchange, and the calls they make to the RPC server that
  builds, checks and broadcasts Bitcoin transactions.

  The server is not part of the modelled program. Its answers are the parameter \<open>rpc\<close>, functions of
  all the calls made before and of the call itself, so they may depend on the history; an answer may
  be an exception of the transport. The calls made are recorded in the state, in their order.

  The two-dimensional arrays of the classes are functions of their two indices.
\<close>

section \<open>The RPC server\<close>

datatype rpc_call =
    FreshAddress
  | VerifyTransaction string string "string list" "string list" "32 word"
  | WaitForTransaction string int
  | GetSignedTransaction string "string list" "string list" "string list" "string list" string string
  | BroadcastTransaction string
  | CreateSend "string list" "string list" "32 word"
  | CreateSendTransactionToAddress string "string list" "string list" string
  | HashForSignature string "string list" "string list" string
  | RedeemTransaction string string string string string nat
  | WaitForTransactionByOutput string int
  | GetSignatures string nat

fun is_redeem :: "rpc_call \<Rightarrow> bool" where
  "is_redeem (RedeemTransaction t1 script d x y r) = True"
| "is_redeem _ = False"

record transaction_and_scripts =
  ts_tx :: string
  ts_original_script :: string
  ts_script :: string

record rpc =
  rpc_bool :: "rpc_call list \<Rightarrow> rpc_call \<Rightarrow> exn + bool"
  rpc_string :: "rpc_call list \<Rightarrow> rpc_call \<Rightarrow> exn + string"
  rpc_scripts :: "rpc_call list \<Rightarrow> rpc_call \<Rightarrow> exn + transaction_and_scripts"
  rpc_pairs :: "rpc_call list \<Rightarrow> rpc_call \<Rightarrow> exn + (string \<times> string) list"

section \<open>The parties\<close>

type_synonym 'a table = "nat \<Rightarrow> nat \<Rightarrow> 'a"

definition put :: "nat \<Rightarrow> nat \<Rightarrow> 'a \<Rightarrow> 'a table \<Rightarrow> 'a table" where
  "put j i x t = t(j := (t j)(i := x))"

record seller =
  se_p :: int
  se_q :: int
  se_n :: int
  se_price :: "32 word"
  se_cheat :: bool
  se_square_root :: square_root_class
  se_y :: "int table"
  se_r1 :: "int table"
  se_r2 :: "int table"
  se_c1 :: "byte list table"
  se_c2 :: "byte list table"
  se_address :: string
  se_T1 :: string
  se_T1_output_script :: string
  se_original_T1_output_script :: string
  se_T2 :: string
  se_single_sellers :: "single_seller list"
  se_d1 :: "sha_sender table"
  se_d2 :: "sha_sender table"

record buyer =
  bu_n :: int
  bu_seller_address :: string
  bu_T1 :: string
  bu_T1_output_script :: string
  bu_original_T1_output_script :: string
  bu_T2 :: string
  bu_T2_hash :: string
  bu_price :: "32 word"
  bu_x :: "int table"
  bu_y :: "int table"
  bu_r :: "int list"
  bu_indices :: "nat \<Rightarrow> nat list"
  bu_signatures :: "nat \<Rightarrow> byte list"
  bu_p :: int
  bu_q :: int
  bu_single_buyers :: "single_buyer list"
  bu_d1 :: "sha_receiver table"
  bu_d2 :: "sha_receiver table"

record world =
  w_seller :: seller
  w_buyer :: buyer
  w_calls :: "rpc_call list"

definition on_seller :: "(seller \<Rightarrow> seller) \<Rightarrow> (world, unit) comp" where
  [comp_defs]: "on_seller f = modify (\<lambda>w. w\<lparr>w_seller := f (w_seller w)\<rparr>)"

definition on_buyer :: "(buyer \<Rightarrow> buyer) \<Rightarrow> (world, unit) comp" where
  [comp_defs]: "on_buyer f = modify (\<lambda>w. w\<lparr>w_buyer := f (w_buyer w)\<rparr>)"

text \<open>A call is recorded whatever the answer is.\<close>

definition rpc_call :: "(rpc_call list \<Rightarrow> rpc_call \<Rightarrow> exn + 'a) \<Rightarrow> rpc_call \<Rightarrow> (world, 'a) comp" where
  "rpc_call answer c = (\<lambda>w. (answer (w_calls w) c, w\<lparr>w_calls := w_calls w @ [c]\<rparr>))"

text \<open>An element of a vector; an index past its end is undefined.\<close>

definition at_vector :: "'a list \<Rightarrow> nat \<Rightarrow> exn + 'a" where
  "at_vector xs i = (if i < length xs then Inr (xs ! i) else Inl Undefined)"

section \<open>The seller\<close>

text \<open>
  The library's integers start as zero and its vectors empty; the arrays of bytes of the commitments
  are what the memory holds.
\<close>

definition new_seller ::
    "cryptopp \<Rightarrow> rpc \<Rightarrow> seller \<Rightarrow> int \<Rightarrow> int \<Rightarrow> 32 word \<Rightarrow> bool \<Rightarrow> exn + seller" where
  "new_seller cp env mem p q price cheat =
     sum_then (rpc_string env [] FreshAddress) (\<lambda>address.
       Inr (mem\<lparr>se_p := p, se_q := q, se_n := p * q, se_price := price, se_cheat := cheat,
                se_square_root := SquareRoot cp p q,
                se_y := (\<lambda>j i. 0), se_r1 := (\<lambda>j i. 0), se_r2 := (\<lambda>j i. 0), se_c1 := (\<lambda>j i. []), se_c2 := (\<lambda>j i. []),
                se_address := address, se_T1 := [], se_T1_output_script := [], se_original_T1_output_script := [],
                se_T2 := [], se_single_sellers := [],
                se_d1 := (\<lambda>j i. (se_d1 mem j i)\<lparr>snd_m := []\<rparr>), se_d2 := (\<lambda>j i. (se_d2 mem j i)\<lparr>snd_m := []\<rparr>)\<rparr>))"

definition seller_get_n :: "seller \<Rightarrow> int" where
  "seller_get_n s = se_p s * se_q s"

text \<open>The members that read or write one field.\<close>

definition seller_get_price :: "seller \<Rightarrow> 32 word" where
  [accessors, simp]: "seller_get_price s = se_price s"

definition getAddress :: "seller \<Rightarrow> string" where
  [accessors, simp]: "getAddress s = se_address s"

definition setAddress :: "string \<Rightarrow> seller \<Rightarrow> seller" where
  [accessors, simp]: "setAddress address s = s\<lparr>se_address := address\<rparr>"

definition setT1OutputScript :: "string \<Rightarrow> seller \<Rightarrow> seller" where
  [accessors, simp]: "setT1OutputScript script s = s\<lparr>se_T1_output_script := script\<rparr>"

definition setOriginalT1OutputScript :: "string \<Rightarrow> seller \<Rightarrow> seller" where
  [accessors, simp]: "setOriginalT1OutputScript script s = s\<lparr>se_original_T1_output_script := script\<rparr>"

definition setT2 :: "string \<Rightarrow> seller \<Rightarrow> seller" where
  [accessors, simp]: "setT2 T2 s = s\<lparr>se_T2 := T2\<rparr>"

definition addSingleSeller :: "single_seller \<Rightarrow> seller \<Rightarrow> seller" where
  [accessors, simp]: "addSingleSeller a s = s\<lparr>se_single_sellers := se_single_sellers s @ [a]\<rparr>"

definition acceptSquares :: "nat \<Rightarrow> (nat \<Rightarrow> int) \<Rightarrow> seller \<Rightarrow> seller" where
  "acceptSquares j y s = s\<lparr>se_y := (se_y s)(j := y)\<rparr>"

text \<open>The bit drawn for every square decides whether its two smallest roots change places.\<close>

definition find_root :: "cryptopp \<Rightarrow> nat \<Rightarrow> (nat \<Rightarrow> bool) \<Rightarrow> nat \<Rightarrow> (seller, unit) comp" where
  "find_root cp j bits i = (\<lambda>s.
     case all_square_roots cp (se_square_root s) (se_y s j i) of
       Inl e \<Rightarrow> (Inl e, s)
     | Inr roots \<Rightarrow>
         let s = s\<lparr>se_r1 := put j i (roots ! 0) (se_r1 s), se_r2 := put j i (roots ! 1) (se_r2 s)\<rparr>
         in (Inr (), if bits i
              then s\<lparr>se_r1 := put j i (se_r2 s j i) (se_r1 s), se_r2 := put j i (se_r1 s j i) (se_r2 s)\<rparr>
              else s))"

definition findRoots :: "cryptopp \<Rightarrow> nat \<Rightarrow> (nat \<Rightarrow> bool) \<Rightarrow> nat \<Rightarrow> (seller, unit) comp" where
  "findRoots cp L bits j = for_each [0..<L] (find_root cp j bits)"

definition encrypt_root :: "cryptopp \<Rightarrow> nat \<Rightarrow> nat \<Rightarrow> (seller, unit) comp" where
  "encrypt_root cp j i = (\<lambda>s.
     case sum_then (at_vector (se_single_sellers s) j) (\<lambda>a.
          sum_then (at_vector (sl_keys_commits a) i) (\<lambda>k. Inr (snd_m k))) of
       Inl e \<Rightarrow> (Inl e, s)
     | Inr key \<Rightarrow>
         (case enc_vector cp key (to_bytes cp (se_r1 s j i)) of
            Inl e \<Rightarrow> (Inl e, s)
          | Inr e1 \<Rightarrow>
              let s = s\<lparr>se_c1 := put j i e1 (se_c1 s)\<rparr>
              in case enc_vector cp key (to_bytes cp (se_r2 s j i)) of
                   Inl e \<Rightarrow> (Inl e, s)
                 | Inr e2 \<Rightarrow> (Inr (), s\<lparr>se_c2 := put j i e2 (se_c2 s)\<rparr>)))"

definition encryptRoots :: "cryptopp \<Rightarrow> nat \<Rightarrow> nat \<Rightarrow> (seller, unit) comp" where
  "encryptRoots cp L j = for_each [0..<L] (encrypt_root cp j)"

definition setupCommit :: "nat \<Rightarrow> nat \<Rightarrow> seller \<Rightarrow> seller" where
  "setupCommit L j s =
     fold (\<lambda>i s. s\<lparr>se_d1 := put j i ((se_d1 s j i)\<lparr>snd_m := se_c1 s j i\<rparr>) (se_d1 s),
                   se_d2 := put j i ((se_d2 s j i)\<lparr>snd_m := se_c2 s j i\<rparr>) (se_d2 s)\<rparr>) [0..<L] s"

text \<open>Which of the two commitments holds the buyer's root: 1, 2, or 5 for neither.\<close>

definition which_root :: "seller \<Rightarrow> nat \<Rightarrow> nat \<Rightarrow> int \<Rightarrow> exn + nat" where
  "which_root s j ind val =
     (if val > se_n s div 2 then Inl (ProtocolException ''xi > n/2'')
      else if val * val mod se_n s \<noteq> se_y s j ind
      then Inl (ProtocolException ''xi is not a square root of yi'')
      else
        let commitment_index = 5;
            commitment_index = (if val = se_r1 s j ind then 1 else commitment_index);
            commitment_index = (if val = se_r2 s j ind then 2 else commitment_index)
        in Inr commitment_index)"

fun acceptSubset :: "seller \<Rightarrow> nat \<Rightarrow> nat list \<Rightarrow> int list \<Rightarrow> exn + nat list" where
  "acceptSubset s j (ind # indices) (val # values) =
     sum_then (which_root s j ind val) (\<lambda>c. sum_then (acceptSubset s j indices values) (\<lambda>cs. Inr (c # cs)))"
| "acceptSubset s j _ _ = Inr []"

text \<open>The coordinates of the shared keys, and the signatures, of the first \<open>R\<close> kept executions.\<close>

fun map_vector :: "('a \<Rightarrow> 'b) \<Rightarrow> 'a list \<Rightarrow> nat list \<Rightarrow> exn + 'b list" where
  "map_vector f xs [] = Inr []"
| "map_vector f xs (i # is) =
     sum_then (at_vector xs i) (\<lambda>x. sum_then (map_vector f xs is) (\<lambda>ys. Inr (f x # ys)))"

definition seller_points :: "cryptopp \<Rightarrow> nat \<Rightarrow> seller \<Rightarrow> exn + string list \<times> string list" where
  "seller_points cp R s =
     sum_then (map_vector (\<lambda>a. integer2string cp (x_coord (S_get_Q (sl_share a)))) (se_single_sellers s) [0..<R]) (\<lambda>xs.
     sum_then (map_vector (\<lambda>a. integer2string cp (y_coord (S_get_Q (sl_share a)))) (se_single_sellers s) [0..<R]) (\<lambda>ys.
       Inr (xs, ys)))"

definition accept_T1 :: "cryptopp \<Rightarrow> rpc \<Rightarrow> params \<Rightarrow> string \<Rightarrow> (world, unit) comp" where
  "accept_T1 cp env P T1 =
     seq (on_seller (\<lambda>s. s\<lparr>se_T1 := T1\<rparr>))
     (and_then (\<lambda>w. (seller_points cp (par_R P) (w_seller w), w)) (\<lambda>(xs, ys).
      and_then (\<lambda>w. rpc_call (rpc_bool env)
         (VerifyTransaction T1 (se_T1_output_script (w_seller w)) xs ys (se_price (w_seller w))) w) (\<lambda>res.
      seq (throw_if (\<not> res) (ProtocolException ''verify T1 failed!''))
      (and_then (rpc_call (rpc_bool env) (WaitForTransaction T1 6)) (\<lambda>res.
       throw_if (\<not> res) (ProtocolException ''wait for t1 failed!''))))))"

definition verifyT2Signature :: "cryptopp \<Rightarrow> rpc \<Rightarrow> params \<Rightarrow> (world, unit) comp" where
  "verifyT2Signature cp env P =
     and_then (\<lambda>w. (seller_points cp (par_R P) (w_seller w), w)) (\<lambda>(xs, ys).
     and_then (\<lambda>w. (map_vector (\<lambda>a. integer2string cp (S_get_r (sl_share a))) (se_single_sellers (w_seller w)) [0..<par_R P], w)) (\<lambda>rs.
     and_then (\<lambda>w. (map_vector (\<lambda>a. integer2string cp (S_get_s (sl_share a))) (se_single_sellers (w_seller w)) [0..<par_R P], w)) (\<lambda>ss.
     and_then (\<lambda>w. rpc_call (rpc_string env)
        (GetSignedTransaction (se_T2 (w_seller w)) xs ys rs ss (se_T1_output_script (w_seller w))
           (se_original_T1_output_script (w_seller w))) w) (\<lambda>res.
     seq (throw_if (length res = 0) (ProtocolException ''verify T2 signature in bitcoinj failed''))
         (on_seller (\<lambda>s. s\<lparr>se_T2 := res\<rparr>))))))"

definition accept_payment :: "rpc \<Rightarrow> (world, unit) comp" where
  "accept_payment env =
     and_then (fetch (\<lambda>w. se_cheat (w_seller w))) (\<lambda>cheat.
       if cheat then ret ()
       else and_then (\<lambda>w. rpc_call (rpc_bool env) (BroadcastTransaction (se_T2 (w_seller w))) w) (\<lambda>res.
              throw_if (\<not> res) (ProtocolException ''accept payment failed!'')))"

section \<open>The buyer\<close>

definition new_buyer :: "buyer \<Rightarrow> int \<Rightarrow> 32 word \<Rightarrow> buyer" where
  "new_buyer mem n price = mem\<lparr>bu_n := n, bu_price := price, bu_seller_address := [], bu_T1 := [],
     bu_T1_output_script := [], bu_original_T1_output_script := [], bu_T2 := [], bu_T2_hash := [],
     bu_x := (\<lambda>j i. 0), bu_y := (\<lambda>j i. 0), bu_r := [], bu_indices := (\<lambda>j. []), bu_signatures := (\<lambda>j. []),
     bu_p := 0, bu_q := 0, bu_single_buyers := [],
     bu_d1 := (\<lambda>j i. (bu_d1 mem j i)\<lparr>rcv_m := []\<rparr>), bu_d2 := (\<lambda>j i. (bu_d2 mem j i)\<lparr>rcv_m := []\<rparr>)\<rparr>"

definition buyer_get_n :: "buyer \<Rightarrow> int" where
  [accessors, simp]: "buyer_get_n b = bu_n b"

definition buyer_get_price :: "buyer \<Rightarrow> 32 word" where
  [accessors, simp]: "buyer_get_price b = bu_price b"

definition setSellerAddress :: "string \<Rightarrow> buyer \<Rightarrow> buyer" where
  [accessors, simp]: "setSellerAddress address b = b\<lparr>bu_seller_address := address\<rparr>"

definition getSellerAddress :: "buyer \<Rightarrow> string" where
  [accessors, simp]: "getSellerAddress b = bu_seller_address b"

definition getSignatures :: "buyer \<Rightarrow> nat \<Rightarrow> byte list" where
  [accessors, simp]: "getSignatures b = bu_signatures b"

definition setSignature :: "(nat \<Rightarrow> byte list) \<Rightarrow> buyer \<Rightarrow> buyer" where
  [accessors, simp]: "setSignature signatures b = b\<lparr>bu_signatures := signatures\<rparr>"

definition set_signature :: "(nat \<Rightarrow> byte list) \<Rightarrow> buyer \<Rightarrow> buyer" where
  [accessors, simp]: "set_signature signatures b = b\<lparr>bu_signatures := signatures\<rparr>"

definition getT1 :: "buyer \<Rightarrow> string" where
  [accessors, simp]: "getT1 b = bu_T1 b"

definition getT1OutputScript :: "buyer \<Rightarrow> string" where
  [accessors, simp]: "getT1OutputScript b = bu_T1_output_script b"

definition getOriginalT1OutputScript :: "buyer \<Rightarrow> string" where
  [accessors, simp]: "getOriginalT1OutputScript b = bu_original_T1_output_script b"

definition getT2Hash :: "buyer \<Rightarrow> string" where
  [accessors, simp]: "getT2Hash b = bu_T2_hash b"

definition getT2 :: "buyer \<Rightarrow> string" where
  [accessors, simp]: "getT2 b = bu_T2 b"

definition getR :: "buyer \<Rightarrow> int list" where
  [accessors, simp]: "getR b = bu_r b"

definition clearSingleBuyers :: "buyer \<Rightarrow> buyer" where
  [accessors, simp]: "clearSingleBuyers b = b\<lparr>bu_single_buyers := []\<rparr>"

definition addSingleBuyer :: "single_buyer \<Rightarrow> buyer \<Rightarrow> buyer" where
  [accessors, simp]: "addSingleBuyer b bu = bu\<lparr>bu_single_buyers := bu_single_buyers bu @ [b]\<rparr>"

definition createT1AndT2 :: "cryptopp \<Rightarrow> rpc \<Rightarrow> params \<Rightarrow> (world, unit) comp" where
  "createT1AndT2 cp env P =
     and_then (\<lambda>w. (map_vector (\<lambda>b. integer2string cp (x_coord (B_get_Q (sb_share b))))
        (bu_single_buyers (w_buyer w)) [0..<par_R P], w)) (\<lambda>xs.
     and_then (\<lambda>w. (map_vector (\<lambda>b. integer2string cp (y_coord (B_get_Q (sb_share b))))
        (bu_single_buyers (w_buyer w)) [0..<par_R P], w)) (\<lambda>ys.
     and_then (\<lambda>w. rpc_call (rpc_scripts env) (CreateSend xs ys (bu_price (w_buyer w))) w) (\<lambda>out.
     seq (on_buyer (\<lambda>b. b\<lparr>bu_T1 := ts_tx out, bu_original_T1_output_script := ts_original_script out,
                          bu_T1_output_script := ts_script out\<rparr>))
     (seq (throw_if (length (ts_tx out) = 0) (ProtocolException ''T1 is empty''))
     (and_then (\<lambda>w. rpc_call (rpc_string env) (CreateSendTransactionToAddress (bu_T1 (w_buyer w)) xs ys
         (bu_seller_address (w_buyer w))) w) (\<lambda>T2.
     seq (on_buyer (\<lambda>b. b\<lparr>bu_T2 := T2\<rparr>))
     (and_then (\<lambda>w. rpc_call (rpc_string env) (HashForSignature (bu_T2 (w_buyer w)) xs ys
         (bu_original_T1_output_script (w_buyer w))) w) (\<lambda>hash.
      on_buyer (\<lambda>b. b\<lparr>bu_T2_hash := hash\<rparr>)))))))))"

text \<open>
  \<open>pickR\<close> draws until it has \<open>R\<close> different numbers. The \<open>k\<close>-th number drawn is \<open>draws k\<close>, and a
  \<^verbatim>\<open>std::set<int>\<close> is its increasing list of elements. \<open>None\<close> is a loop that never ends.
\<close>

partial_function (option) pick_loop :: "(nat \<Rightarrow> int) \<Rightarrow> nat \<Rightarrow> nat \<Rightarrow> int list \<Rightarrow> int list option" where
  "pick_loop draws R k chosen =
     (if length chosen < R then pick_loop draws R (Suc k) (insort_insert (draws k) chosen) else Some chosen)"

definition pickR :: "(nat \<Rightarrow> int) \<Rightarrow> nat \<Rightarrow> buyer \<Rightarrow> buyer option" where
  "pickR draws R b = map_option (\<lambda>chosen. b\<lparr>bu_r := chosen\<rparr>) (pick_loop draws R 0 [])"

definition genSquares :: "nat \<Rightarrow> (nat \<Rightarrow> int) \<Rightarrow> nat \<Rightarrow> buyer \<Rightarrow> buyer" where
  "genSquares L draw j b =
     fold (\<lambda>i b. let b = b\<lparr>bu_x := put j i (draw i) (bu_x b)\<rparr>
                 in b\<lparr>bu_y := put j i (bu_x b j i * bu_x b j i mod bu_n b) (bu_y b)\<rparr>) [0..<L] b"

definition getSquares :: "nat \<Rightarrow> buyer \<Rightarrow> nat \<Rightarrow> int" where
  "getSquares j b = bu_y b j"

text \<open>\<open>shuffle\<close> is the library's random shuffle of a range.\<close>

definition pickSubset :: "(nat list \<Rightarrow> nat list) \<Rightarrow> nat \<Rightarrow> nat \<Rightarrow> buyer \<Rightarrow> buyer" where
  "pickSubset shuffle L j b =
     (let indices = [0..<L]; indices = shuffle indices
      in b\<lparr>bu_indices := (bu_indices b)(j := take (L div 2) indices)\<rparr>)"

definition getSubsetIndices :: "nat \<Rightarrow> buyer \<Rightarrow> nat list" where
  "getSubsetIndices j b = bu_indices b j"

definition getSubsetValues :: "nat \<Rightarrow> nat \<Rightarrow> buyer \<Rightarrow> int list" where
  "getSubsetValues L j b = map (\<lambda>i. bu_x b j (bu_indices b j ! i)) [0..<L div 2]"

definition verifyRoot :: "cryptopp \<Rightarrow> nat \<Rightarrow> nat \<Rightarrow> byte list \<Rightarrow> byte list \<Rightarrow> buyer \<Rightarrow> exn + unit" where
  "verifyRoot cp j ind key c b =
     sum_then (dec_vector cp key c) (\<lambda>x_encoded.
       let x = decode_bytes cp x_encoded
       in if x \<noteq> bu_x b j ind then Inl (ProtocolException ''verifyRoot failed'') else Inr ())"

definition make_payment :: "rpc \<Rightarrow> (world, unit) comp" where
  "make_payment env =
     and_then (\<lambda>w. rpc_call (rpc_bool env) (BroadcastTransaction (bu_T1 (w_buyer w))) w) (\<lambda>res.
       throw_if (\<not> res) (ProtocolException ''make payment failed''))"

section \<open>The choice of the kept executions\<close>

lemma pick_loop_ends:
  assumes "k \<le> N" "R \<le> card (draws ` {..<N})"
    and "sorted chosen" "distinct chosen" "set chosen = draws ` {..<k}" "length chosen \<le> R"
  shows "\<exists>res. pick_loop draws R k chosen = Some res \<and> sorted res \<and> distinct res \<and> length res = R \<and>
    set res \<subseteq> draws ` {..<N}"
  using assms(1,3-)
proof (induction "N - k" arbitrary: k chosen)
  case 0
  then have "length chosen = card (draws ` {..<N})" using distinct_card [of chosen] by simp
  with 0 assms(2) show ?case by (subst pick_loop.simps) auto
next
  case (Suc d)
  show ?case
  proof (cases "length chosen < R")
    case False
    have "set chosen \<subseteq> draws ` {..<N}" using Suc.prems(1,4) by auto
    with False Suc.prems show ?thesis by (subst pick_loop.simps) auto
  next
    case True
    let ?c = "insort_insert (draws k) chosen"
    have c: "sorted ?c" "distinct ?c" "set ?c = draws ` {..<Suc k}"
      using Suc.prems by (simp_all add: sorted_insort_insert distinct_insort_insert set_insort_insert
          lessThan_Suc)
    have "length ?c \<le> Suc (length chosen)"
      by (simp add: insort_insert_key_def length_insort)
    then have "length ?c \<le> R" using True by simp
    then have "\<exists>res. pick_loop draws R (Suc k) ?c = Some res \<and> sorted res \<and> distinct res \<and> length res = R \<and>
        set res \<subseteq> draws ` {..<N}"
      using Suc.hyps Suc.prems(1) c by simp
    then show ?thesis using True by (subst pick_loop.simps) simp
  qed
qed

text \<open>
  \<open>pickR\<close> ends once \<open>R\<close> different numbers have been drawn, with a set of indices that
  cut-and-choose does not refuse, already in the order in which it sorts them.
\<close>

lemma pickR_good:
  assumes range: "\<And>k. draws k \<in> {0..int T - 1}" and enough: "R \<le> card (draws ` {..<N})"
  shows "\<exists>b'. pickR draws R b = Some b' \<and> good_indices T R (bu_r b') \<and> sort (bu_r b') = bu_r b'"
proof -
  obtain res where res: "pick_loop draws R 0 [] = Some res" "sorted res" "distinct res" "length res = R"
    "set res \<subseteq> draws ` {..<N}"
    using pick_loop_ends [of 0 N R draws "[]"] enough by auto
  have "draws ` {..<N} \<subseteq> {0..<int T}" using range by fastforce
  then have "good_indices T R res" using res(3-5) by (auto simp: good_indices_def)
  then show ?thesis using res(1,2) by (simp add: pickR_def sorted_sort_id)
qed

end
