(* ===== verification/Sell_Information.thy ===== *)
theory Sell_Information
  imports Sell_Parties
begin

text \<open>
  \<open>SellInformationProtocol\<close> of main/sell_information.cpp: the whole exchange up to the moment the
  buyer waits for the signature to appear on the blockchain or for the time lock.
\<close>

section \<open>Everything that is drawn\<close>

record sell_draw =
  dw_paillier :: "int \<times> int"
  dw_timed :: "int \<times> int"
  dw_keys :: "nat \<Rightarrow> key_draw"
  dw_picks :: "nat \<Rightarrow> int"
  dw_sigs :: "nat \<Rightarrow> sigkey_draw"
  dw_x :: "nat \<Rightarrow> nat \<Rightarrow> int"
  dw_bits :: "nat \<Rightarrow> nat \<Rightarrow> bool"
  dw_seed1 :: "nat \<Rightarrow> nat \<Rightarrow> byte list"
  dw_seed2 :: "nat \<Rightarrow> nat \<Rightarrow> byte list"
  dw_shuffle :: "nat \<Rightarrow> nat list \<Rightarrow> nat list"

text \<open>
  What surrounds the program: the libraries, the RPC server, uninitialised memory, and what lies
  past the end of the sorted index vector of cut-and-choose.
\<close>

record setting =
  lib :: cryptopp
  curve :: ec
  lib_verifier :: "ec_point \<Rightarrow> byte list \<Rightarrow> byte list \<Rightarrow> bool"
  server :: rpc
  mem_seller :: single_seller
  mem_buyer :: single_buyer
  mem_flag :: bool
  mem_past :: "nat \<Rightarrow> int"

section \<open>The parties of the two cut-and-choose phases\<close>

text \<open>One pair of parties is built and copied \<open>T\<close> times; then every copy agrees on its own key.\<close>

definition agree_keys ::
    "nat \<Rightarrow> (nat \<Rightarrow> key_draw) \<Rightarrow> single_seller list \<Rightarrow> single_buyer list \<Rightarrow>
     exn + (single_seller list \<times> single_buyer list)" where
  "agree_keys T keys as bs =
     (case for_each [0..<T] (\<lambda>i. at_index i (on_shares (ss_init (keys i)))) (as, bs) of
        (Inl e, _) \<Rightarrow> Inl e
      | (Inr _, as, bs) \<Rightarrow> Inr (as, bs))"

definition setup_parties ::
    "setting \<Rightarrow> params \<Rightarrow> sell_draw \<Rightarrow> exn + (single_seller list \<times> single_buyer list)" where
  "setup_parties E P dw =
     sum_then (S_new (lib E) (curve E) (fst (dw_paillier dw)) (snd (dw_paillier dw))) (\<lambda>S.
     sum_then (S_get_paillier_n S) (\<lambda>pn.
     sum_then (S_get_paillier_g S) (\<lambda>pg.
     sum_then (B_new (curve E) (mem_flag E) pn pg) (\<lambda>B.
     sum_then (new_single_seller (mem_seller E) S (fst (dw_timed dw)) (snd (dw_timed dw))) (\<lambda>a.
       let b = new_single_buyer (mem_buyer E) B;
           single_sellers = replicate (par_T P) a;
           single_buyers = replicate (par_T P) b
       in agree_keys (par_T P) (dw_keys dw) single_sellers single_buyers)))))"

text \<open>\<open>verifier.i[i]\<close> and the element of a vector it names, as an \<^verbatim>\<open>unsigned\<close> index.\<close>

definition picked :: "'a list \<Rightarrow> int list \<Rightarrow> nat \<Rightarrow> exn + 'a" where
  "picked xs chosen i =
     sum_then (at_vector chosen i) (\<lambda>ix. if ix < 0 then Inl Undefined else at_vector xs (nat ix))"

definition add_single_buyers :: "single_buyer list \<Rightarrow> int list \<Rightarrow> nat \<Rightarrow> (world, unit) comp" where
  "add_single_buyers bs chosen R =
     for_each [0..<R] (\<lambda>i. and_then (from_sum (picked bs chosen i)) (\<lambda>b.
       on_buyer (addSingleBuyer b)))"

definition add_both ::
    "single_seller list \<Rightarrow> single_buyer list \<Rightarrow> int list \<Rightarrow> nat \<Rightarrow> (world, unit) comp" where
  "add_both as bs chosen R =
     for_each [0..<R] (\<lambda>i.
       seq (and_then (from_sum (picked as chosen i)) (\<lambda>a.
             on_seller (addSingleSeller a)))
           (and_then (from_sum (picked bs chosen i)) (\<lambda>b.
             on_buyer (addSingleBuyer b))))"

text \<open>
  The first phase after \<open>pickR\<close>: transactions, cut-and-choose over the signature protocol, the kept
  executions handed to the parties, and the seller's check of its signatures.
\<close>

definition first_phase ::
    "setting \<Rightarrow> params \<Rightarrow> sell_draw \<Rightarrow> single_seller list \<Rightarrow> single_buyer list \<Rightarrow> (world, unit) comp" where
  "first_phase E P dw as bs =
     and_then (fetch (\<lambda>w. getR (w_buyer w))) (\<lambda>chosen.
     seq (add_single_buyers bs chosen (par_R P))
     (and_then (fetch (\<lambda>w. getAddress (w_seller w))) (\<lambda>address.
      seq (on_buyer (setSellerAddress address))
     (seq (createT1AndT2 (lib E) (server E) P)
     (and_then (fetch (\<lambda>w. string2v (getT2Hash (w_buyer w)))) (\<lambda>t2.
      and_then (\<lambda>w. case cut_and_choose (\<lambda>i. sk_init)
             (\<lambda>i. sk_exec (lib E) (curve E) P (lib_verifier E) t2 (dw_sigs dw i))
             (sk_open (lib E) (curve E) P) sb_getOpenVerified single_seller_cheat (par_T P) (par_R P)
             (mem_past E) (-1) (\<lparr>pv_v = as\<rparr>, \<lparr>vf_v = bs, vf_i = chosen, vf_res = mem_flag E\<rparr>) of
           (Inl e, _) \<Rightarrow> (Inl e, w)
         | (Inr _, p, v) \<Rightarrow> (Inr (p, v), w)) (\<lambda>(p, v).
      seq (throw_if (\<not> vf_res v) (ProtocolException ''Generating signatures and keys failed!''))
     (seq (on_buyer clearSingleBuyers)
     (seq (add_both (pv_v p) (vf_v v) (vf_i v) (par_R P))
     (seq (\<lambda>w. on_seller (setT1OutputScript (getT1OutputScript (w_buyer w))) w)
     (seq (\<lambda>w. on_seller (setOriginalT1OutputScript (getOriginalT1OutputScript (w_buyer w))) w)
     (seq (\<lambda>w. on_seller (setT2 (getT2 (w_buyer w))) w)
          (verifyT2Signature (lib E) (server E) P)))))))))))))"

section \<open>One round of the second cut-and-choose\<close>

text \<open>A hash commitment between the parties: to the two encrypted roots, and to a key.\<close>

definition on_d1 :: "nat \<Rightarrow> nat \<Rightarrow> (sha_sender, sha_receiver) step \<Rightarrow> (world, unit) comp" where
  "on_d1 j i f = (\<lambda>w. case f (se_d1 (w_seller w) j i, bu_d1 (w_buyer w) j i) of
     (r, s, v) \<Rightarrow> (r, w\<lparr>w_seller := (w_seller w)\<lparr>se_d1 := put j i s (se_d1 (w_seller w))\<rparr>,
                       w_buyer := (w_buyer w)\<lparr>bu_d1 := put j i v (bu_d1 (w_buyer w))\<rparr>\<rparr>))"

definition on_d2 :: "nat \<Rightarrow> nat \<Rightarrow> (sha_sender, sha_receiver) step \<Rightarrow> (world, unit) comp" where
  "on_d2 j i f = (\<lambda>w. case f (se_d2 (w_seller w) j i, bu_d2 (w_buyer w) j i) of
     (r, s, v) \<Rightarrow> (r, w\<lparr>w_seller := (w_seller w)\<lparr>se_d2 := put j i s (se_d2 (w_seller w))\<rparr>,
                       w_buyer := (w_buyer w)\<lparr>bu_d2 := put j i v (bu_d2 (w_buyer w))\<rparr>\<rparr>))"

definition on_key :: "nat \<Rightarrow> nat \<Rightarrow> (sha_sender, sha_receiver) step \<Rightarrow> (world, unit) comp" where
  "on_key j i f = (\<lambda>w.
     case at_index j (on_keys (at_index i f)) (se_single_sellers (w_seller w), bu_single_buyers (w_buyer w)) of
       (r, as, bs) \<Rightarrow> (r, w\<lparr>w_seller := (w_seller w)\<lparr>se_single_sellers := as\<rparr>,
                           w_buyer := (w_buyer w)\<lparr>bu_single_buyers := bs\<rparr>\<rparr>))"

definition commit_roots :: "cryptopp \<Rightarrow> sell_draw \<Rightarrow> nat \<Rightarrow> nat \<Rightarrow> (world, unit) comp" where
  "commit_roots cp dw j i =
     seq (on_d1 j i sha_init) (seq (on_d2 j i sha_init)
     (seq (on_d1 j i (sha_exec cp (dw_seed1 dw j i))) (on_d2 j i (sha_exec cp (dw_seed2 dw j i)))))"

text \<open>The opening of one execution of the subset: the key, and the root the seller named.\<close>

definition check_root :: "cryptopp \<Rightarrow> nat \<Rightarrow> nat \<Rightarrow> nat \<Rightarrow> (world, unit) comp" where
  "check_root cp j ind commit_ind =
     seq (on_key j ind (sha_open cp))
     (and_then (\<lambda>w. (sum_then (at_vector (bu_single_buyers (w_buyer w)) j) (\<lambda>b.
                     sum_then (at_vector (sb_keys_commits b) ind) (\<lambda>k. Inr (rcv_m k))), w)) (\<lambda>key.
      and_then
        (if commit_ind = 1 then seq (on_d1 j ind (sha_open cp)) (fetch (\<lambda>w. rcv_m (bu_d1 (w_buyer w) j ind)))
         else if commit_ind = 2 then seq (on_d2 j ind (sha_open cp)) (fetch (\<lambda>w. rcv_m (bu_d2 (w_buyer w) j ind)))
         else throw (ProtocolException ''matching roots to values didn't work'')) (\<lambda>c.
      \<lambda>w. (verifyRoot cp j ind key c (w_buyer w), w))))"

definition open_both :: "cryptopp \<Rightarrow> nat \<Rightarrow> nat list \<Rightarrow> nat \<Rightarrow> (world, unit) comp" where
  "open_both cp j indices ind =
     (if ind \<notin> set indices then seq (on_d1 j ind (sha_open cp)) (on_d2 j ind (sha_open cp)) else ret ())"

text \<open>A round in two halves: squares, roots and commitments, then the choice and check of the subset.\<close>

definition commit_phase :: "setting \<Rightarrow> params \<Rightarrow> sell_draw \<Rightarrow> nat \<Rightarrow> (world, unit) comp" where
  "commit_phase E P dw j =
     (let cp = lib E; L = par_L P in
     seq (on_buyer (genSquares L (dw_x dw j) j))
     (seq (\<lambda>w. on_seller (acceptSquares j (getSquares j (w_buyer w))) w)
     (seq (\<lambda>w. case findRoots cp L (dw_bits dw j) j (w_seller w) of (r, s) \<Rightarrow> (r, w\<lparr>w_seller := s\<rparr>))
     (seq (\<lambda>w. case encryptRoots cp L j (w_seller w) of (r, s) \<Rightarrow> (r, w\<lparr>w_seller := s\<rparr>))
     (seq (on_seller (setupCommit L j))
          (for_each [0..<L] (commit_roots cp dw j)))))))"

definition check_phase :: "setting \<Rightarrow> params \<Rightarrow> sell_draw \<Rightarrow> nat \<Rightarrow> (world, unit) comp" where
  "check_phase E P dw j =
     (let cp = lib E; L = par_L P in
     seq (on_buyer (pickSubset (dw_shuffle dw j) L j))
     (and_then (fetch (\<lambda>w. getSubsetIndices j (w_buyer w))) (\<lambda>indices.
      and_then (fetch (\<lambda>w. getSubsetValues L j (w_buyer w))) (\<lambda>values.
      seq (throw_if (card (set indices) \<noteq> L div 2) (ProtocolException ''invalid indices size''))
     (seq (throw_if (\<exists>ind\<in>set indices. L \<le> ind) (ProtocolException ''invalid commitment_indices value''))
     (and_then (\<lambda>w. (acceptSubset (w_seller w) j indices values, w)) (\<lambda>commitment_indices.
      seq (for_each [0..<L div 2] (\<lambda>i. check_root cp j (indices ! i) (commitment_indices ! i)))
          (for_each [0..<L] (open_both cp j indices)))))))))"

definition sell_round :: "setting \<Rightarrow> params \<Rightarrow> sell_draw \<Rightarrow> nat \<Rightarrow> (world, unit) comp" where
  "sell_round E P dw j = seq (commit_phase E P dw j) (check_phase E P dw j)"

section \<open>The protocol\<close>

definition sell_init :: "(world, unit) comp" where
  "sell_init = (\<lambda>w.
     if seller_get_n (w_seller w) \<noteq> buyer_get_n (w_buyer w) then (Inl (ProtocolException ''Not matching n''), w)
     else if seller_get_price (w_seller w) \<noteq> buyer_get_price (w_buyer w) then (Inl (ProtocolException ''Not matching price''), w)
     else (Inr (), w))"

text \<open>\<open>open\<close> has an empty body: there is nothing to open at the end of a sale.\<close>

definition sell_open :: "(world, unit) comp" where
  "sell_open = ret ()"

definition off_chain ::
    "setting \<Rightarrow> params \<Rightarrow> sell_draw \<Rightarrow> single_seller list \<Rightarrow> single_buyer list \<Rightarrow> (world, unit) comp" where
  "off_chain E P dw as bs =
     seq (first_phase E P dw as bs) (for_each [0..<par_R P] (sell_round E P dw))"

definition on_chain :: "setting \<Rightarrow> params \<Rightarrow> (world, unit) comp" where
  "on_chain E P =
     seq (make_payment (server E))
     (seq (\<lambda>w. accept_T1 (lib E) (server E) P (getT1 (w_buyer w)) w)
          (accept_payment (server E)))"

text \<open>
  \<open>exec\<close> without its last call, \<open>wait_for_signature_or_time_lock\<close>. \<open>None\<close>: \<open>pickR\<close> does not end.
\<close>

definition sell_exec ::
    "setting \<Rightarrow> params \<Rightarrow> sell_draw \<Rightarrow> world \<Rightarrow> ((exn + unit) \<times> world) option" where
  "sell_exec E P dw w =
     (case setup_parties E P dw of
        Inl e \<Rightarrow> Some (Inl e, w)
      | Inr (as, bs) \<Rightarrow>
          (case pickR (dw_picks dw) (par_R P) (w_buyer w) of
             None \<Rightarrow> None
           | Some b \<Rightarrow> Some (seq (off_chain E P dw as bs) (on_chain E P) (w\<lparr>w_buyer := b\<rparr>))))"

section \<open>The calls a computation makes\<close>

fun is_broadcast :: "rpc_call \<Rightarrow> bool" where
  "is_broadcast (BroadcastTransaction t) = True"
| "is_broadcast _ = False"

text \<open>A computation that adds only calls that broadcast nothing.\<close>

definition quiet :: "(world, 'a) comp \<Rightarrow> bool" where
  "quiet f \<longleftrightarrow> (\<forall>w. \<exists>cs. w_calls (snd (f w)) = w_calls w @ cs \<and> (\<forall>c\<in>set cs. \<not> is_broadcast c))"

named_theorems quiet_rules \<open>the computations that broadcast nothing\<close>

lemma quiet_unchanged: "(\<And>w. w_calls (snd (f w)) = w_calls w) \<Longrightarrow> quiet f"
  by (simp add: quiet_def)

lemma quiet_basic [quiet_rules]:
  "quiet (ret x)" "quiet (throw e)" "quiet (from_sum r)" "quiet (fetch f)" "quiet (throw_if b e)"
  "quiet (on_seller g)" "quiet (on_buyer h)" "quiet (\<lambda>w. (k w, w))" "quiet (\<lambda>w. on_seller (l w) w)"
  by (simp_all add: quiet_unchanged on_seller_def on_buyer_def)

lemma quiet_rpc_call [quiet_rules]:
  "(\<And>w. \<not> is_broadcast (c w)) \<Longrightarrow> quiet (\<lambda>w. rpc_call answer (c w) w)"
  "\<not> is_broadcast c' \<Longrightarrow> quiet (rpc_call answer c')"
  by (simp_all add: quiet_def rpc_call_def)

lemma quiet_and_then [quiet_rules]:
  assumes "quiet f" "\<And>x. quiet (g x)"
  shows "quiet (and_then f g)"
  unfolding quiet_def
proof
  fix w
  obtain r w1 where 1: "f w = (r, w1)" by (metis surj_pair)
  then obtain cs where cs: "w_calls w1 = w_calls w @ cs" "\<forall>c\<in>set cs. \<not> is_broadcast c"
    using assms(1) unfolding quiet_def by (metis snd_conv)
  show "\<exists>cs. w_calls (snd (and_then f g w)) = w_calls w @ cs \<and> (\<forall>c\<in>set cs. \<not> is_broadcast c)"
  proof (cases r)
    case (Inl e)
    with 1 cs show ?thesis by (simp add: and_then_def)
  next
    case (Inr x)
    obtain ds where ds: "w_calls (snd (g x w1)) = w_calls w1 @ ds" "\<forall>c\<in>set ds. \<not> is_broadcast c"
      using assms(2) [of x] unfolding quiet_def by metis
    have "and_then f g w = g x w1" using 1 Inr by (simp add: and_then_def)
    with cs ds show ?thesis by (intro exI [of _ "cs @ ds"]) auto
  qed
qed

lemma quiet_seq [quiet_rules]: "quiet f \<Longrightarrow> quiet g \<Longrightarrow> quiet (seq f g)"
  unfolding seq_def by (rule quiet_and_then)

lemma quiet_for_each [quiet_rules]:
  assumes "\<And>x. quiet (body x)"
  shows "quiet (for_each xs body)"
proof (induction xs)
  case Nil
  then show ?case by (simp add: quiet_unchanged)
next
  case (Cons x xs)
  have "for_each (x # xs) body = and_then (body x) (\<lambda>_. for_each xs body)"
    by (simp add: and_then_def fun_eq_iff)
  then show ?case using quiet_and_then [OF assms Cons] by simp
qed

lemma quiet_steps [quiet_rules]:
  "quiet (on_d1 j i f)" "quiet (on_d2 j i f)" "quiet (on_key j i f)"
  by (simp_all add: quiet_unchanged on_d1_def on_d2_def on_key_def split: prod.splits)

lemma quiet_part [quiet_rules]:
  "quiet (\<lambda>w. case F (w_seller w) of (r, s) \<Rightarrow> (r, w\<lparr>w_seller := s\<rparr>))"
  "quiet (\<lambda>w. case H (w_buyer w) of (r, b) \<Rightarrow> (r, w\<lparr>w_buyer := b\<rparr>))"
  "quiet (\<lambda>w. case G of (Inl e, t) \<Rightarrow> (Inl e, w) | (Inr x, p, v) \<Rightarrow> (Inr (p, v), w))"
  by (auto intro!: quiet_unchanged split: prod.splits sum.splits)

lemma quiet_if [quiet_rules]: "quiet f \<Longrightarrow> quiet g \<Longrightarrow> quiet (if b then f else g)"
  by simp

lemma quiet_case_prod [quiet_rules]: "(\<And>x y. quiet (f x y)) \<Longrightarrow> quiet (case p of (x, y) \<Rightarrow> f x y)"
  by (cases p) simp

lemma off_chain_quiet: "quiet (off_chain E P dw as bs)"
  unfolding off_chain_def first_phase_def add_single_buyers_def add_both_def createT1AndT2_def
    verifyT2Signature_def sell_round_def commit_phase_def check_phase_def commit_roots_def check_root_def open_both_def Let_def
  by (intro quiet_rules) simp_all

text \<open>Questions to the server that must all be answered with true.\<close>

fun asks :: "rpc \<Rightarrow> (rpc_call \<times> exn) list \<Rightarrow> (world, unit) comp" where
  "asks env [] = ret ()"
| "asks env ((c, e) # cs) = and_then (rpc_call (rpc_bool env) c) (\<lambda>res. seq (throw_if (\<not> res) e) (asks env cs))"

text \<open>The first \<open>k\<close> calls of a list were made, and all but perhaps the last were answered with true.\<close>

definition asked :: "rpc \<Rightarrow> rpc_call list \<Rightarrow> nat \<Rightarrow> rpc_call list \<Rightarrow> rpc_call list \<Rightarrow> bool" where
  "asked env cs k before after \<longleftrightarrow> k \<le> length cs \<and> after = before @ take k cs \<and>
     (\<forall>i. Suc i < k \<longrightarrow> rpc_bool env (before @ take i cs) (cs ! i) = Inr True)"

lemma asked_Cons:
  assumes "rpc_bool env before c = Inr True" "asked env cs k (before @ [c]) after"
  shows "asked env (c # cs) (Suc k) before after"
proof -
  have "rpc_bool env (before @ take i (c # cs)) ((c # cs) ! i) = Inr True" if "Suc i < Suc k" for i
    using assms that by (cases i) (simp_all add: asked_def)
  then show ?thesis using assms(2) by (simp add: asked_def)
qed

lemma asks_calls:
  "\<exists>k. asked env (map fst cs) k (w_calls w) (w_calls (snd (asks env cs w))) \<and>
     (fst (asks env cs w) = Inr () \<longrightarrow> k = length cs)"
proof (induction cs arbitrary: w)
  case Nil
  then show ?case by (simp add: asked_def)
next
  case (Cons ce cs)
  obtain c e where ce: "ce = (c, e)" by (cases ce)
  let ?w = "w\<lparr>w_calls := w_calls w @ [c]\<rparr>"
  show ?case
  proof (cases "rpc_bool env (w_calls w) c = Inr True")
    case True
    obtain k where k: "asked env (map fst cs) k (w_calls ?w) (w_calls (snd (asks env cs ?w)))"
      "fst (asks env cs ?w) = Inr () \<longrightarrow> k = length cs" using Cons.IH by blast
    have "asks env (ce # cs) w = asks env cs ?w"
      using True by (simp add: ce and_then_def seq_def rpc_call_def)
    with k asked_Cons [OF True, of "map fst cs" k] show ?thesis
      by (intro exI [of _ "Suc k"]) (simp add: ce)
  next
    case False
    then obtain r where "asks env (ce # cs) w = (Inl r, ?w)"
      by (cases "rpc_bool env (w_calls w) c") (auto simp: ce and_then_def seq_def rpc_call_def)
    then show ?thesis by (intro exI [of _ 1]) (simp add: asked_def ce)
  qed
qed

text \<open>The calls of the last part, with the coordinates the seller sends.\<close>

definition chain_calls :: "world \<Rightarrow> string list \<Rightarrow> string list \<Rightarrow> (rpc_call \<times> exn) list" where
  "chain_calls w xs ys =
     [(VerifyTransaction (bu_T1 (w_buyer w)) (se_T1_output_script (w_seller w)) xs ys (se_price (w_seller w)),
       ProtocolException ''verify T1 failed!''),
      (WaitForTransaction (bu_T1 (w_buyer w)) 6, ProtocolException ''wait for t1 failed!'')]
     @ (if se_cheat (w_seller w) then []
        else [(BroadcastTransaction (se_T2 (w_seller w)), ProtocolException ''accept payment failed!'')])"

lemma on_chain_calls:
  "\<exists>xs ys k. asked (server E) (BroadcastTransaction (bu_T1 (w_buyer w)) # map fst (chain_calls w xs ys)) k
      (w_calls w) (w_calls (snd (on_chain E P w))) \<and> 1 \<le> k \<and>
    (fst (on_chain E P w) = Inr () \<longrightarrow> k = Suc (length (chain_calls w xs ys)))"
proof -
  let ?c = "BroadcastTransaction (bu_T1 (w_buyer w))"
  let ?w = "w\<lparr>w_calls := w_calls w @ [?c]\<rparr>"
  show ?thesis
  proof (cases "rpc_bool (server E) (w_calls w) ?c = Inr True")
    case False
    then obtain e where "on_chain E P w = (Inl e, ?w)"
      by (cases "rpc_bool (server E) (w_calls w) ?c")
        (auto simp: on_chain_def make_payment_def seq_def and_then_def rpc_call_def)
    then show ?thesis by (intro exI [of _ "[]"] exI [of _ 1]) (simp add: asked_def)
  next
    case True
    let ?w1 = "?w\<lparr>w_seller := (w_seller w)\<lparr>se_T1 := bu_T1 (w_buyer w)\<rparr>\<rparr>"
    show ?thesis
    proof (cases "seller_points (lib E) (par_R P) (w_seller ?w1)")
      case (Inl e)
      then have "on_chain E P w = (Inl e, ?w1)"
        using True by (simp add: on_chain_def make_payment_def accept_T1_def seq_def and_then_def
            rpc_call_def on_seller_def)
      then show ?thesis by (intro exI [of _ "[]"] exI [of _ 1]) (simp add: asked_def)
    next
      case (Inr p)
      obtain xs ys where p: "p = (xs, ys)" by (cases p)
      let ?cs = "chain_calls w xs ys"
      have "on_chain E P w = asks (server E) ?cs ?w1"
        using True Inr p
        by (simp add: on_chain_def make_payment_def accept_T1_def accept_payment_def seq_def and_then_def
            rpc_call_def on_seller_def chain_calls_def split: sum.splits prod.splits)
      then show ?thesis
        using asks_calls [of "server E" ?cs ?w1] asked_Cons [OF True, of "map fst ?cs"] by fastforce
    qed
  qed
qed

section \<open>Setup\<close>

lemma for_each_commiters:
  assumes "for_each [0..<T] (\<lambda>i. at_index i (on_shares (f i))) (as, bs) = (Inr (), as', bs')"
  shows "length as' = length as \<and> length bs' = length bs \<and>
    (\<forall>i<T. i < length as \<and> i < length bs \<and>
       (\<exists>S B. f i (sl_share (as ! i), sb_share (bs ! i)) = (Inr (), S, B) \<and>
          as' ! i = (as ! i)\<lparr>sl_share := S\<rparr> \<and> bs' ! i = (bs ! i)\<lparr>sb_share := B\<rparr>))"
  using each_index_partial [OF assms] by (auto simp: on_parts_Inr)

lemma agree_keys_Inr:
  "agree_keys T keys as bs = Inr (as', bs') \<longleftrightarrow>
     for_each [0..<T] (\<lambda>i. at_index i (on_shares (ss_init (keys i)))) (as, bs) = (Inr (), as', bs')"
  by (auto simp: agree_keys_def split: prod.splits sum.splits)

lemma setup_parties_Inr:
  assumes "setup_parties E P dw = Inr (as, bs)"
  shows "\<exists>S B a. S_new (lib E) (curve E) (fst (dw_paillier dw)) (snd (dw_paillier dw)) = Inr S \<and>
    sum_then (S_get_paillier_n S) (\<lambda>pn. sum_then (S_get_paillier_g S) (B_new (curve E) (mem_flag E) pn)) = Inr B \<and>
    new_single_seller (mem_seller E) S (fst (dw_timed dw)) (snd (dw_timed dw)) = Inr a \<and>
    length as = par_T P \<and> length bs = par_T P \<and>
    (\<forall>i<par_T P. \<exists>S' B'. ss_init (dw_keys dw i) (S, B) = (Inr (), S', B') \<and>
       as ! i = a\<lparr>sl_share := S'\<rparr> \<and> bs ! i = (new_single_buyer (mem_buyer E) B)\<lparr>sb_share := B'\<rparr>)"
proof -
  obtain S pn pg B a where 1: "S_new (lib E) (curve E) (fst (dw_paillier dw)) (snd (dw_paillier dw)) = Inr S"
    "S_get_paillier_n S = Inr pn" "S_get_paillier_g S = Inr pg" "B_new (curve E) (mem_flag E) pn pg = Inr B"
    "new_single_seller (mem_seller E) S (fst (dw_timed dw)) (snd (dw_timed dw)) = Inr a"
    and loop: "for_each [0..<par_T P] (\<lambda>i. at_index i (on_shares (ss_init (dw_keys dw i))))
      (replicate (par_T P) a, replicate (par_T P) (new_single_buyer (mem_buyer E) B)) = (Inr (), as, bs)"
    using assms by (auto simp: setup_parties_def sum_then_Inr Let_def agree_keys_Inr)
  have "sl_share a = S" "sb_share (new_single_buyer (mem_buyer E) B) = B"
    using 1(5) by (auto simp: new_single_seller_def new_single_buyer_def sum_then_Inr)
  then show ?thesis using 1 for_each_commiters [OF loop] by (intro exI [of _ S] exI [of _ B] exI [of _ a]) auto
qed

text \<open>
  An honest setting: the libraries behave, the primes are different and of the drawn sizes, the
  arrays have their lengths, and every execution has numbers that let it end.
\<close>

definition honest_draws :: "setting \<Rightarrow> params \<Rightarrow> sell_draw \<Rightarrow> byte list \<Rightarrow> bool" where
  "honest_draws E P dw t2 \<longleftrightarrow>
     curve_setup (lib E) (curve E) \<and> length t2 = 32 \<and>
     (let p = fst (dw_paillier dw); q = snd (dw_paillier dw) in
        paillier_key (lib E) (paillier_generate (lib E) p q) \<and>
        2 * ec_order (curve E) * ec_order (curve E) * ec_order (curve E) * ec_order (curve E) < p * q \<and>
        (\<forall>i<par_T P. draws_ok (curve E) (p * q) (dw_keys dw i) (sk_sig (dw_sigs dw i)))) \<and>
     (let p = fst (dw_timed dw); q = snd (dw_timed dw) in
        prime_integer p \<and> prime_integer q \<and> p \<noteq> q \<and> p mod 4 = 3 \<and> q mod 4 = 3 \<and>
        (\<forall>i<par_T P. 0 \<le> sk_h (dw_sigs dw i) \<and> sk_h (dw_sigs dw i) < p * q)) \<and>
     (\<forall>i<par_T P. let sd = sk_sig (dw_sigs dw i) in
        nonce_r (curve E) sd \<noteq> 0 \<and> nonce_x (curve E) sd < ec_order (curve E) \<and>
        \<not> ec_order (curve E) dvd message_int (lib E) (curve E) t2
             + nonce_r (curve E) sd * shared_key (dw_keys dw i)) \<and>
     length (sl_keys_commits (mem_seller E)) = par_L P \<and>
     length (sb_keys_commits (mem_buyer E)) = par_L P"

lemma setup_parties_fresh:
  assumes ok: "honest_draws E P dw t2"
  shows "\<exists>as bs. setup_parties E P dw = Inr (as, bs) \<and> length as = par_T P \<and> length bs = par_T P \<and>
    (\<forall>i<par_T P. sk_fresh (lib E) (curve E) P t2 (dw_keys dw i) (dw_sigs dw i) (as ! i) (bs ! i))"
proof -
  let ?cp = "lib E" and ?ec = "curve E"
  let ?p = "fst (dw_paillier dw)" and ?q = "snd (dw_paillier dw)"
  let ?tp = "fst (dw_timed dw)" and ?tq = "snd (dw_timed dw)"
  have cset: "curve_setup ?cp ?ec" and len: "length t2 = 32"
    and key: "paillier_key ?cp (paillier_generate ?cp ?p ?q)"
    and big: "2 * ec_order ?ec * ec_order ?ec * ec_order ?ec * ec_order ?ec < ?p * ?q"
    using ok by (simp_all add: honest_draws_def Let_def)
  have dr: "draws_ok ?ec (?p * ?q) (dw_keys dw i) (sk_sig (dw_sigs dw i))" if "i < par_T P" for i
    using ok that by (simp add: honest_draws_def Let_def)
  obtain S B where SB: "S_new ?cp ?ec ?p ?q = Inr S"
    "sum_then (S_get_paillier_n S) (\<lambda>pn. sum_then (S_get_paillier_g S) (B_new ?ec (mem_flag E) pn)) = Inr B"
    "S_paillier S = paillier_generate ?cp ?p ?q"
    "parties_ok ?cp ?ec t2 (S_set_data t2 S) (B_set_data t2 B)"
    using parties_new [OF key big, of "mem_flag E"] len by blast
  let ?c = "\<lparr>cm_p = ?tp, cm_q = ?tq, cm_n = ?tp * ?tq, cm_phi = (?tp - 1) * (?tq - 1),
    cm_com = cm_com (sl_commiter (mem_seller E))\<rparr>"
  let ?a = "(mem_seller E)\<lparr>sl_share := S, sl_commiter := ?c\<rparr>" and ?b = "new_single_buyer (mem_buyer E) B"
  have a: "new_single_seller (mem_seller E) S ?tp ?tq = Inr ?a"
    using ok by (simp add: new_single_seller_def new_commiter_def gen_prime_def honest_draws_def Let_def)
  have com: "commiter_ok ?c" using ok by (simp add: commiter_ok_def honest_draws_def Let_def)
  have step: "\<exists>S' B'. ss_init (dw_keys dw i) (S, B) = (Inr (), S', B') \<and>
      sk_fresh ?cp ?ec P t2 (dw_keys dw i) (dw_sigs dw i) (?a\<lparr>sl_share := S'\<rparr>) (?b\<lparr>sb_share := B'\<rparr>)"
    if i: "i < par_T P" for i
  proof -
    have c: "S_curve S = ?ec" "B_curve B = ?ec" using SB(4)
      by (simp_all add: parties_ok_def S_set_data_def B_set_data_def)
    have d: "0 \<le> draw_ds (dw_keys dw i)" "0 \<le> draw_db (dw_keys dw i)"
      using dr [OF i] by (simp_all add: draws_ok_def)
    let ?S = "S_finish_init (ec_multiply ?ec (draw_db (dw_keys dw i)) (ec_generator ?ec)) (S_start_init (draw_ds (dw_keys dw i)) S)"
    let ?B = "B_finish_init (ec_multiply ?ec (draw_ds (dw_keys dw i)) (ec_generator ?ec)) (B_start_init (draw_db (dw_keys dw i)) B)"
    have run: "ss_init (dw_keys dw i) (S, B) = (Inr (), ?S, ?B)" by (rule ss_init_run(1) [OF cset c d])
    obtain S1 B1 where "ss_init (dw_keys dw i) (S, B) = (Inr (), S1, B1)" "keys_agreed ?ec (dw_keys dw i) S1 B1"
      using ss_init_agrees [OF cset c d] by blast
    then have ag: "keys_agreed ?ec (dw_keys dw i) ?S ?B" using run by simp
    have ok': "parties_ok ?cp ?ec t2 (S_set_data t2 ?S) (B_set_data t2 ?B)" and pl: "S_paillier ?S = S_paillier S"
      using SB(4) by (simp_all add: parties_ok_def S_set_data_def B_set_data_def S_finish_init_def
          S_start_init_def B_finish_init_def B_start_init_def)
    have "pl_n (S_paillier ?S) = ?p * ?q" by (simp add: pl SB(3) paillier_generate_def Let_def)
    then have "sk_fresh ?cp ?ec P t2 (dw_keys dw i) (dw_sigs dw i) (?a\<lparr>sl_share := ?S\<rparr>) (?b\<lparr>sb_share := ?B\<rparr>)"
      using ok i cset ok' ag dr [OF i] com
      by (simp add: sk_fresh_def honest_draws_def Let_def new_single_buyer_def)
    with run show ?thesis by blast
  qed
  have sh: "sl_share ?a = S" "sb_share ?b = B" by (simp_all add: new_single_buyer_def)
  have "\<exists>t. for_each [0..<par_T P] (\<lambda>i. at_index i (on_shares (ss_init (dw_keys dw i))))
      (replicate (par_T P) ?a, replicate (par_T P) ?b) = (Inr (), t)"
  proof (rule each_index_total)
    fix i assume i: "i < par_T P"
    then show "\<exists>x y. on_shares (ss_init (dw_keys dw i)) (fst (replicate (par_T P) ?a, replicate (par_T P) ?b) ! i,
        snd (replicate (par_T P) ?a, replicate (par_T P) ?b) ! i) = (Inr (), x, y)"
      using step [OF i] sh by (auto simp: on_parts_Inr)
  qed simp_all
  then obtain as bs where loop: "for_each [0..<par_T P] (\<lambda>i. at_index i (on_shares (ss_init (dw_keys dw i))))
      (replicate (par_T P) ?a, replicate (par_T P) ?b) = (Inr (), as, bs)" by auto
  have "sk_fresh ?cp ?ec P t2 (dw_keys dw i) (dw_sigs dw i) (as ! i) (bs ! i)" if i: "i < par_T P" for i
    using for_each_commiters [OF loop] step [OF i] i sh by force
  moreover have "setup_parties E P dw = Inr (as, bs)"
    using SB(1,2) a loop by (auto simp: setup_parties_def agree_keys_Inr sum_then_Inr Let_def)
  moreover have "length as = par_T P" "length bs = par_T P" using for_each_commiters [OF loop] by simp_all
  ultimately show ?thesis by blast
qed

section \<open>The first phase between honest parties\<close>

text \<open>What an execution that was kept leaves: commitments to the keys of the signature made.\<close>

definition sk_kept :: "cryptopp \<Rightarrow> ec \<Rightarrow> params \<Rightarrow> single_seller \<Rightarrow> single_buyer \<Rightarrow> bool" where
  "sk_kept cp ec P a b \<longleftrightarrow> sk_ready cp ec P a b \<and>
     snd_m (sl_signature_commit a) = S_get_signature cp (sl_share a)"

lemma kept_executions:
  assumes fresh: "\<And>i. i < T \<Longrightarrow> sk_fresh cp ec P t2 (kd i) (dr i) (as ! i) (bs ! i)"
    and len: "length as = T" "length bs = T"
    and good: "good_indices T R c" "c \<noteq> []" and past: "\<And>j. past_end j \<notin> {0..<int T}"
  shows "\<exists>p v. cut_and_choose (\<lambda>i. sk_init) (\<lambda>i. sk_exec cp ec P lib_verify t2 (dr i)) (sk_open cp ec P)
      sb_getOpenVerified single_seller_cheat T R past_end (-1) (\<lparr>pv_v = as\<rparr>, \<lparr>vf_v = bs, vf_i = c, vf_res = f\<rparr>)
      = (Inr (), p, v) \<and> vf_res v \<and> vf_i v = c \<and> length (pv_v p) = T \<and> length (vf_v v) = T \<and>
    (\<forall>i<T. int i \<in> set c \<longrightarrow> sk_kept cp ec P (pv_v p ! i) (vf_v v ! i) \<and>
       key_sealed cp ec (draw_ds (kd i)) (vf_v v ! i))"
proof -
  let ?p = "\<lparr>pv_v = as\<rparr>" and ?v = "\<lparr>vf_v = bs, vf_i = c, vf_res = f\<rparr>"
  let ?exec = "\<lambda>i. sk_exec cp ec P lib_verify t2 (dr i)"
  obtain p v where run: "cut_and_choose (\<lambda>i. sk_init) ?exec (sk_open cp ec P) sb_getOpenVerified
      single_seller_cheat T R past_end (-1) (?p, ?v) = (Inr (), p, v)" and res: "vf_res v"
    using skh.cut_and_choose_accepts [of T R ?v ?p cp ec P t2 kd dr past_end lib_verify single_seller_cheat]
      fresh len good past by auto
  obtain s where s: "run_all (\<lambda>i. sk_init) ?exec T (as, bs) = (Inr (), s)"
    and o: "\<And>i. i < T \<Longrightarrow> opened_at (sk_open cp ec P) sb_getOpenVerified c i s (pv_v p, vf_v v)"
    using cut_and_choose_result [OF run] res by auto
  have "sk_kept cp ec P (pv_v p ! i) (vf_v v ! i) \<and> key_sealed cp ec (draw_ds (kd i)) (vf_v v ! i)" if i: "i < T" and c: "int i \<in> set c" for i
  proof -
    have "?exec i (as ! i, bs ! i) = (Inr (), fst s ! i, snd s ! i)"
      using run_all_partial [OF s] i by (simp add: seq_def and_then_def sk_init_def)
    then have "sk_kept cp ec P (fst s ! i) (snd s ! i) \<and> key_sealed cp ec (draw_ds (kd i)) (snd s ! i)"
      using sk_exec_run [OF fresh [OF i], of lib_verify] by (simp add: sk_kept_def)
    then show ?thesis using o [OF i] c by (simp add: opened_at_def)
  qed
  then show ?thesis using run res cut_and_choose_frame [OF run] len by auto
qed

lemma picked_good:
  assumes "good_indices T R c" "length xs = T" "k < R"
  shows "picked xs c k = Inr (xs ! nat (c ! k))" "nat (c ! k) < T" "int (nat (c ! k)) \<in> set c"
proof -
  have k: "k < length c" using assms by (simp add: good_indices_def)
  then have "c ! k \<in> set c" by simp
  moreover then have "0 \<le> c ! k" "c ! k < int T" using assms(1) by (auto simp: good_indices_def)
  ultimately show "picked xs c k = Inr (xs ! nat (c ! k))" "nat (c ! k) < T" "int (nat (c ! k)) \<in> set c"
    using k assms(2) by (simp_all add: picked_def at_vector_def nat_less_iff)
qed

lemma add_single_buyers_run:
  assumes "good_indices T R c" "length bs = T" "k \<le> R"
  shows "add_single_buyers bs c k w = (Inr (), w\<lparr>w_buyer := (w_buyer w)\<lparr>bu_single_buyers :=
    bu_single_buyers (w_buyer w) @ map (\<lambda>i. bs ! nat (c ! i)) [0..<k]\<rparr>\<rparr>)"
  using assms(3)
proof (induction k)
  case 0
  then show ?case by (simp add: add_single_buyers_def)
next
  case (Suc k)
  then show ?case
    using picked_good [OF assms(1,2), of k]
    by (simp add: add_single_buyers_def for_each_append on_buyer_def and_then_def)
qed

lemma add_both_run:
  assumes "good_indices T R c" "length as = T" "length bs = T" "k \<le> R"
  shows "add_both as bs c k w = (Inr (), w\<lparr>
    w_seller := (w_seller w)\<lparr>se_single_sellers :=
      se_single_sellers (w_seller w) @ map (\<lambda>i. as ! nat (c ! i)) [0..<k]\<rparr>,
    w_buyer := (w_buyer w)\<lparr>bu_single_buyers :=
      bu_single_buyers (w_buyer w) @ map (\<lambda>i. bs ! nat (c ! i)) [0..<k]\<rparr>\<rparr>)"
  using assms(4)
proof (induction k)
  case 0
  then show ?case by (simp add: add_both_def)
next
  case (Suc k)
  then show ?case
    using picked_good [OF assms(1,2), of k] picked_good [OF assms(1,3), of k]
    by (simp add: add_both_def for_each_append on_buyer_def on_seller_def and_then_def seq_def)
qed

text \<open>
  A server that answers every question but that for a redemption with yes, builds transactions that are not empty, and hashes
  T2 to \<open>hash\<close>.
\<close>

definition good_server :: "rpc \<Rightarrow> string \<Rightarrow> bool" where
  "good_server env hash \<longleftrightarrow>
     (\<forall>log c. \<not> is_redeem c \<longrightarrow> rpc_bool env log c = Inr True) \<and>
     (\<forall>log c. \<exists>out. rpc_scripts env log c = Inr out \<and> ts_tx out \<noteq> []) \<and>
     (\<forall>log c. \<exists>tx. rpc_string env log c = Inr tx \<and> tx \<noteq> []) \<and>
     (\<forall>log tx xs ys script. rpc_string env log (HashForSignature tx xs ys script) = Inr hash)"

lemma map_vector_run:
  "k \<le> length xs \<Longrightarrow> (\<And>i. i \<in> set is \<Longrightarrow> i < k) \<Longrightarrow>
     map_vector f xs is = Inr (map (\<lambda>i. f (xs ! i)) is)"
proof (induction "is")
  case Nil
  then show ?case by simp
next
  case (Cons i "is")
  have "i < length xs" using Cons.prems(2) [of i] Cons.prems(1) by simp
  then show ?case using Cons by (simp add: at_vector_def)
qed

lemma createT1AndT2_run:
  assumes good: "good_server env hash" and len: "par_R P \<le> length (bu_single_buyers (w_buyer w))"
  shows "\<exists>T1 s0 s1 T2 cs. createT1AndT2 cp env P w = (Inr (), w\<lparr>
    w_buyer := (w_buyer w)\<lparr>bu_T1 := T1, bu_original_T1_output_script := s0, bu_T1_output_script := s1,
                          bu_T2 := T2, bu_T2_hash := hash\<rparr>,
    w_calls := w_calls w @ cs\<rparr>)"
proof -
  have mv: "map_vector f (bu_single_buyers (w_buyer w)) [0..<par_R P]
      = Inr (map (\<lambda>i. f (bu_single_buyers (w_buyer w) ! i)) [0..<par_R P])" for f :: "single_buyer \<Rightarrow> string"
    by (rule map_vector_run [OF len]) simp
  let ?xs = "map (\<lambda>i. integer2string cp (x_coord (B_Q (sb_share (bu_single_buyers (w_buyer w) ! i))))) [0..<par_R P]"
  let ?ys = "map (\<lambda>i. integer2string cp (y_coord (B_Q (sb_share (bu_single_buyers (w_buyer w) ! i))))) [0..<par_R P]"
  let ?c1 = "CreateSend ?xs ?ys (bu_price (w_buyer w))"
  obtain out where out: "rpc_scripts env (w_calls w) ?c1 = Inr out" "ts_tx out \<noteq> []"
    using good unfolding good_server_def by metis
  let ?c2 = "CreateSendTransactionToAddress (ts_tx out) ?xs ?ys (bu_seller_address (w_buyer w))"
  obtain T2 where T2: "rpc_string env (w_calls w @ [?c1]) ?c2 = Inr T2"
    using good unfolding good_server_def by metis
  let ?c3 = "HashForSignature T2 ?xs ?ys (ts_original_script out)"
  have "rpc_string env (w_calls w @ [?c1, ?c2]) ?c3 = Inr hash"
    using good by (simp add: good_server_def)
  then show ?thesis using out T2
    by (intro exI [of _ "ts_tx out"] exI [of _ "ts_original_script out"] exI [of _ "ts_script out"]
        exI [of _ T2] exI [of _ "[?c1, ?c2, ?c3]"])
      (simp add: createT1AndT2_def mv seq_def and_then_def rpc_call_def on_buyer_def)
qed

lemma verifyT2Signature_run:
  assumes good: "good_server env hash" and len: "par_R P \<le> length (se_single_sellers (w_seller w))"
  shows "\<exists>T2 cs. verifyT2Signature cp env P w = (Inr (), w\<lparr>
    w_seller := (w_seller w)\<lparr>se_T2 := T2\<rparr>, w_calls := w_calls w @ cs\<rparr>)"
proof -
  have mv: "map_vector f (se_single_sellers (w_seller w)) [0..<par_R P]
      = Inr (map (\<lambda>i. f (se_single_sellers (w_seller w) ! i)) [0..<par_R P])" for f :: "single_seller \<Rightarrow> string"
    by (rule map_vector_run [OF len]) simp
  let ?m = "\<lambda>f. map (\<lambda>i. integer2string cp (f (sl_share (se_single_sellers (w_seller w) ! i)))) [0..<par_R P]"
  let ?c = "GetSignedTransaction (se_T2 (w_seller w)) (?m (\<lambda>S. x_coord (S_Q S))) (?m (\<lambda>S. y_coord (S_Q S)))
    (?m S_r) (?m S_s) (se_T1_output_script (w_seller w)) (se_original_T1_output_script (w_seller w))"
  obtain T2 where T2: "rpc_string env (w_calls w) ?c = Inr T2" "T2 \<noteq> []"
    using good unfolding good_server_def by metis
  then show ?thesis
    by (intro exI [of _ T2] exI [of _ "[?c]"])
      (simp add: verifyT2Signature_def seller_points_def mv seq_def and_then_def rpc_call_def on_seller_def)
qed

text \<open>The exchange after the first phase: \<open>R\<close> kept executions, all else of the seller unchanged.\<close>

lemma first_phase_run:
  assumes draws: "honest_draws E P dw (string2v hash)" and server: "good_server (server E) hash"
    and parties: "setup_parties E P dw = Inr (as, bs)"
    and good: "good_indices (par_T P) (par_R P) (bu_r (w_buyer w))" "0 < par_R P"
    and past: "\<And>j. mem_past E j \<notin> {0..<int (par_T P)}"
    and empty: "bu_single_buyers (w_buyer w) = []" "se_single_sellers (w_seller w) = []"
  shows "\<exists>w'. first_phase E P dw as bs w = (Inr (), w') \<and>
    length (se_single_sellers (w_seller w')) = par_R P \<and> length (bu_single_buyers (w_buyer w')) = par_R P \<and>
    (\<forall>k<par_R P. sk_kept (lib E) (curve E) P (se_single_sellers (w_seller w') ! k) (bu_single_buyers (w_buyer w') ! k)) \<and>
    (\<forall>k<par_R P. \<exists>i<par_T P. key_sealed (lib E) (curve E) (draw_ds (dw_keys dw i)) (bu_single_buyers (w_buyer w') ! k)) \<and>
    se_n (w_seller w') = se_n (w_seller w) \<and> se_square_root (w_seller w') = se_square_root (w_seller w) \<and>
    bu_n (w_buyer w') = bu_n (w_buyer w) \<and> bu_d1 (w_buyer w') = bu_d1 (w_buyer w) \<and>
    bu_d2 (w_buyer w') = bu_d2 (w_buyer w) \<and> se_cheat (w_seller w') = se_cheat (w_seller w)"
proof -
  let ?c = "bu_r (w_buyer w)" and ?T = "par_T P" and ?R = "par_R P" and ?t2 = "string2v hash"
  obtain len: "length as = ?T" "length bs = ?T"
    and fresh: "\<And>i. i < ?T \<Longrightarrow> sk_fresh (lib E) (curve E) P ?t2 (dw_keys dw i) (dw_sigs dw i) (as ! i) (bs ! i)"
    using setup_parties_fresh [OF draws] parties by auto
  have ne: "?c \<noteq> []" using good by (auto simp: good_indices_def)
  let ?w1 = "w\<lparr>w_buyer := (w_buyer w)\<lparr>bu_single_buyers := map (\<lambda>i. bs ! nat (?c ! i)) [0..<?R]\<rparr>\<rparr>"
  have 1: "add_single_buyers bs ?c ?R w = (Inr (), ?w1)"
    using add_single_buyers_run [OF good(1) len(2), of ?R w] empty by simp
  let ?w2 = "?w1\<lparr>w_buyer := (w_buyer ?w1)\<lparr>bu_seller_address := se_address (w_seller w)\<rparr>\<rparr>"
  obtain T1 s0 s1 T2 cs where 2: "createT1AndT2 (lib E) (server E) P ?w2 = (Inr (), ?w2\<lparr>
    w_buyer := (w_buyer ?w2)\<lparr>bu_T1 := T1, bu_original_T1_output_script := s0, bu_T1_output_script := s1,
                          bu_T2 := T2, bu_T2_hash := hash\<rparr>,
    w_calls := w_calls ?w2 @ cs\<rparr>)"
    using createT1AndT2_run [OF server, of P ?w2 "lib E"] by auto
  let ?w3 = "?w2\<lparr>w_buyer := (w_buyer ?w2)\<lparr>bu_T1 := T1, bu_original_T1_output_script := s0,
    bu_T1_output_script := s1, bu_T2 := T2, bu_T2_hash := hash\<rparr>, w_calls := w_calls ?w2 @ cs\<rparr>"
  obtain p v where 3: "cut_and_choose (\<lambda>i. sk_init)
      (\<lambda>i. sk_exec (lib E) (curve E) P (lib_verifier E) ?t2 (dw_sigs dw i))
      (sk_open (lib E) (curve E) P) sb_getOpenVerified single_seller_cheat ?T ?R
      (mem_past E) (-1) (\<lparr>pv_v = as\<rparr>, \<lparr>vf_v = bs, vf_i = ?c, vf_res = mem_flag E\<rparr>) = (Inr (), p, v)"
    "vf_res v" "vf_i v = ?c" "length (pv_v p) = ?T" "length (vf_v v) = ?T"
    and kept: "\<And>i. i < ?T \<Longrightarrow> int i \<in> set ?c \<Longrightarrow> sk_kept (lib E) (curve E) P (pv_v p ! i) (vf_v v ! i)"
      "\<And>i. i < ?T \<Longrightarrow> int i \<in> set ?c \<Longrightarrow> key_sealed (lib E) (curve E) (draw_ds (dw_keys dw i)) (vf_v v ! i)"
    using kept_executions [OF fresh len good(1) ne, where lib_verify = "lib_verifier E" and f = "mem_flag E"
        and past_end = "mem_past E"] past
    by blast
  let ?w4 = "?w3\<lparr>w_buyer := (w_buyer ?w3)\<lparr>bu_single_buyers := []\<rparr>\<rparr>"
  let ?as = "map (\<lambda>i. pv_v p ! nat (?c ! i)) [0..<?R]" and ?bs = "map (\<lambda>i. vf_v v ! nat (?c ! i)) [0..<?R]"
  let ?w5 = "?w4\<lparr>w_seller := (w_seller ?w4)\<lparr>se_single_sellers := ?as\<rparr>,
    w_buyer := (w_buyer ?w4)\<lparr>bu_single_buyers := ?bs\<rparr>\<rparr>"
  have 5: "add_both (pv_v p) (vf_v v) (vf_i v) ?R ?w4 = (Inr (), ?w5)"
    using add_both_run [OF good(1) 3(4,5), of ?R ?w4] empty 3(3) by simp
  let ?w6 = "?w5\<lparr>w_seller := (w_seller ?w5)\<lparr>se_T1_output_script := s1, se_original_T1_output_script := s0, se_T2 := T2\<rparr>\<rparr>"
  obtain T2' cs' where 6: "verifyT2Signature (lib E) (server E) P ?w6 = (Inr (), ?w6\<lparr>
    w_seller := (w_seller ?w6)\<lparr>se_T2 := T2'\<rparr>, w_calls := w_calls ?w6 @ cs'\<rparr>)"
    using verifyT2Signature_run [OF server, of P ?w6 "lib E"] by auto
  have "sk_kept (lib E) (curve E) P (?as ! k) (?bs ! k)" if "k < ?R" for k
    using kept(1) picked_good [OF good(1) len(1) that] that by simp
  moreover have "\<exists>i<?T. key_sealed (lib E) (curve E) (draw_ds (dw_keys dw i)) (?bs ! k)" if "k < ?R" for k
    using kept(2) picked_good [OF good(1) len(1) that] that by auto
  moreover have "first_phase E P dw as bs w = (Inr (), ?w6\<lparr>
    w_seller := (w_seller ?w6)\<lparr>se_T2 := T2'\<rparr>, w_calls := w_calls ?w6 @ cs'\<rparr>)"
    using 1 2 3(1,2) 5 6
    by (simp add: first_phase_def seq_def and_then_def on_buyer_def on_seller_def)
  ultimately show ?thesis by simp
qed

end
