(* ===== verification/Settlement.thy ===== *)
theory Settlement
  imports Sell_Information
begin

text \<open>
  The end of the exchange for the buyer, main/sell_information.cpp: two threads, one that waits for
  the seller's signature on the blockchain and factorises with it, one that opens the timed
  commitments and takes the payment back. How the threads run side by side is in Threads.
\<close>

section \<open>Factorisation\<close>

definition abs_integer :: "int \<Rightarrow> int" where
  "abs_integer r = (if r < 0 then - r else r)"

text \<open>The two nested loops over the opened ciphertexts, in the order of the code.\<close>

fun factor_loop :: "cryptopp \<Rightarrow> buyer \<Rightarrow> byte list list list \<Rightarrow> (nat \<times> nat) list \<Rightarrow> exn + (int \<times> int)" where
  "factor_loop cp b keys [] = Inl (ProtocolException ''Factorization failed!'')"
| "factor_loop cp b keys ((j, i) # rest) =
     (if rcv_m (bu_d1 b j i) = [] \<or> rcv_m (bu_d2 b j i) = [] then factor_loop cp b keys rest
      else
        sum_then (dec_array cp (keys ! j ! i) (rcv_m (bu_d1 b j i))) (\<lambda>r1_bytes.
        sum_then (dec_array cp (keys ! j ! i) (rcv_m (bu_d2 b j i))) (\<lambda>r2_bytes.
          let r1 = abs_integer (decode_bytes cp r1_bytes);
              r2 = abs_integer (decode_bytes cp r2_bytes);
              p = integer_gcd cp (bu_n b + r1 - r2) (bu_n b);
              q = integer_gcd cp (r1 + r2) (bu_n b)
          in if p * q = bu_n b then Inr (p, q) else factor_loop cp b keys rest)))"

definition factorise :: "cryptopp \<Rightarrow> params \<Rightarrow> (buyer, unit) comp" where
  "factorise cp P = (\<lambda>b.
     let keys = map (\<lambda>i. genKeys cp (par_L P) (bu_signatures b i)) [0..<par_R P]
     in case factor_loop cp b keys (List.product [0..<par_R P] [0..<par_L P]) of
          Inl e \<Rightarrow> (Inl e, b)
        | Inr (p, q) \<Rightarrow> (Inr (), b\<lparr>bu_p := p, bu_q := q\<rparr>))"

section \<open>The thread that waits for the signature\<close>

definition read_signature :: "cryptopp \<Rightarrow> (string \<times> string) list \<Rightarrow> nat \<Rightarrow> exn + byte list" where
  "read_signature cp signatures i =
     sum_then (at_vector signatures i) (\<lambda>(r_bytes, s_bytes).
       let r = decode_bytes cp (string2v r_bytes); s = decode_bytes cp (string2v s_bytes)
       in Inr (encode_signature cp r s))"

definition get_signature :: "cryptopp \<Rightarrow> rpc \<Rightarrow> params \<Rightarrow> (world, unit) comp" where
  "get_signature cp env P =
     and_then (\<lambda>w. rpc_call (rpc_bool env) (WaitForTransactionByOutput (bu_seller_address (w_buyer w)) 6) w) (\<lambda>res.
     seq (throw_if (\<not> res) (ProtocolException ''wait for transaction by output failed''))
     (and_then (\<lambda>w. rpc_call (rpc_pairs env) (GetSignatures (bu_seller_address (w_buyer w)) (par_R P)) w) (\<lambda>signatures.
      seq (for_each [0..<par_R P] (\<lambda>i. and_then (from_sum (read_signature cp signatures i)) (\<lambda>sig.
             on_buyer (\<lambda>b. b\<lparr>bu_signatures := (bu_signatures b)(i := sig)\<rparr>))))
          (\<lambda>w. case factorise cp P (w_buyer w) of (r, b) \<Rightarrow> (r, w\<lparr>w_buyer := b\<rparr>)))))"

section \<open>The thread that solves the time lock\<close>

text \<open>
  The loop over the kept executions until one redeem transaction is accepted. The outer \<open>None\<close> is a
  forced opening that does not end; the result is the last answer of the server.
\<close>

fun redeem_loop ::
    "cryptopp \<Rightarrow> rpc \<Rightarrow> params \<Rightarrow> bool \<Rightarrow> nat list \<Rightarrow> world \<Rightarrow> ((exn + bool) \<times> world) option" where
  "redeem_loop cp env P res [] w = Some (Inr res, w)"
| "redeem_loop cp env P res (j # js) w =
     (if res then Some (Inr res, w)
      else case at_vector (bu_single_buyers (w_buyer w)) j of
             Inl e \<Rightarrow> Some (Inl e, w)
           | Inr b \<Rightarrow>
               (case force_open cp (sb_receiver b) of
                  None \<Rightarrow> None
                | Some (Inl e) \<Rightarrow> Some (Inl e, w)
                | Some (Inr ds_bytes) \<Rightarrow>
                    (case bits_to_integer cp ds_bytes of
                       Inl e \<Rightarrow> Some (Inl e, w)
                     | Inr ds \<Rightarrow>
                         let d = ds * B_get_db (sb_share b);
                             d = d mod B_get_n (sb_share b)
                         in case rpc_call (rpc_bool env)
                                   (RedeemTransaction (bu_T1 (w_buyer w)) (bu_original_T1_output_script (w_buyer w))
                                      (integer2string cp d) (integer2string cp (x_coord (B_get_Q (sb_share b))))
                                      (integer2string cp (y_coord (B_get_Q (sb_share b)))) (par_R P)) w of
                              (Inl e, w) \<Rightarrow> Some (Inl e, w)
                            | (Inr res, w) \<Rightarrow> redeem_loop cp env P res js w)))"

text \<open>\<open>None\<close> stands for the loop that sleeps forever when nothing was redeemed.\<close>

definition solve_time_lock :: "cryptopp \<Rightarrow> rpc \<Rightarrow> params \<Rightarrow> world \<Rightarrow> ((exn + unit) \<times> world) option" where
  "solve_time_lock cp env P w =
     (case redeem_loop cp env P False [0..<par_R P] w of
        None \<Rightarrow> None
      | Some (Inl e, w') \<Rightarrow> Some (Inl e, w')
      | Some (Inr res, w') \<Rightarrow> if \<not> res then None else Some (Inr (), w'))"

section \<open>What factorisation finds\<close>

text \<open>Two different square roots of one number in the lower half, in either order.\<close>

definition half_roots :: "int \<Rightarrow> int \<Rightarrow> int \<Rightarrow> bool" where
  "half_roots n a b \<longleftrightarrow> 0 < a \<and> a \<le> n div 2 \<and> 0 < b \<and> b \<le> n div 2 \<and> a \<noteq> b \<and> a * a mod n = b * b mod n"

lemma half_roots_factor:
  assumes p: "prime_integer p" and q: "prime_integer q" and pq: "p \<noteq> q" and r: "half_roots (p * q) a b"
  shows "gcd (p * q + a - b) (p * q) * gcd (a + b) (p * q) = p * q
    \<and> {gcd (p * q + a - b) (p * q), gcd (a + b) (p * q)} = {p, q}"
proof -
  let ?n = "p * q"
  have sub: "gcd (?n + a - b) ?n = gcd (a - b) ?n"
    by (metis add_diff_eq gcd.commute gcd_add2)
  show ?thesis
  proof (cases "a < b")
    case True
    then show ?thesis unfolding sub using r
      by (intro small_roots_split [OF p q pq]) (simp_all add: half_roots_def)
  next
    case False
    then have lt: "b < a" using r by (simp add: half_roots_def)
    have neg: "gcd (b - a) ?n = gcd (a - b) ?n" by (metis gcd_neg1 minus_diff_eq)
    have "gcd (b - a) ?n * gcd (b + a) ?n = ?n \<and> {gcd (b - a) ?n, gcd (b + a) ?n} = {p, q}"
      using lt r by (intro small_roots_split [OF p q pq]) (simp_all add: half_roots_def)
    then show ?thesis unfolding sub neg by (simp only: add.commute)
  qed
qed

text \<open>The pair of ciphertexts at one position decrypts to two such roots, or is skipped.\<close>

definition skipped :: "buyer \<Rightarrow> nat \<times> nat \<Rightarrow> bool" where
  "skipped b = (\<lambda>(j, i). rcv_m (bu_d1 b j i) = [] \<or> rcv_m (bu_d2 b j i) = [])"

definition holds_roots :: "cryptopp \<Rightarrow> buyer \<Rightarrow> byte list list list \<Rightarrow> nat \<times> nat \<Rightarrow> bool" where
  "holds_roots cp b keys = (\<lambda>(j, i). \<exists>x y. dec_array cp (keys ! j ! i) (rcv_m (bu_d1 b j i)) = Inr x \<and>
     dec_array cp (keys ! j ! i) (rcv_m (bu_d2 b j i)) = Inr y \<and>
     half_roots (bu_n b) (decode_bytes cp x) (decode_bytes cp y))"

lemma factor_loop_finds:
  assumes laws: "modular_laws cp" and p: "prime_integer p" and q: "prime_integer q" and pq: "p \<noteq> q"
    and n: "bu_n b = p * q"
    and all: "\<And>x. x \<in> set xs \<Longrightarrow> skipped b x \<or> holds_roots cp b keys x"
    and some: "\<exists>x\<in>set xs. \<not> skipped b x"
  shows "\<exists>p' q'. factor_loop cp b keys xs = Inr (p', q') \<and> {p', q'} = {p, q}"
  using all some
proof (induction xs)
  case Nil
  then show ?case by simp
next
  case (Cons x xs)
  obtain j i where x: "x = (j, i)" by (cases x)
  show ?case
  proof (cases "skipped b x")
    case True
    then have "\<exists>x\<in>set xs. \<not> skipped b x" using Cons.prems(2) by auto
    then obtain p' q' where "factor_loop cp b keys xs = Inr (p', q')" "{p', q'} = {p, q}"
      using Cons.IH Cons.prems(1) by auto
    then show ?thesis using True by (simp add: x skipped_def)
  next
    case False
    then obtain u v where d: "dec_array cp (keys ! j ! i) (rcv_m (bu_d1 b j i)) = Inr u"
      "dec_array cp (keys ! j ! i) (rcv_m (bu_d2 b j i)) = Inr v"
      and r: "half_roots (p * q) (decode_bytes cp u) (decode_bytes cp v)"
      using Cons.prems(1) [of x] by (auto simp: x holds_roots_def n)
    have "abs_integer (decode_bytes cp u) = decode_bytes cp u" "abs_integer (decode_bytes cp v) = decode_bytes cp v"
      using r by (simp_all add: half_roots_def abs_integer_def)
    then show ?thesis using False d half_roots_factor [OF p q pq r] laws
      by (simp add: x skipped_def n Let_def integer_gcd_eq)
  qed
qed

lemma factorise_finds:
  assumes laws: "modular_laws cp" and p: "prime_integer p" and q: "prime_integer q" and pq: "p \<noteq> q"
    and n: "bu_n b = p * q"
    and all: "\<And>j i. j < par_R P \<Longrightarrow> i < par_L P \<Longrightarrow> skipped b (j, i) \<or>
      holds_roots cp b (map (\<lambda>i. genKeys cp (par_L P) (bu_signatures b i)) [0..<par_R P]) (j, i)"
    and one: "jj < par_R P" "ii < par_L P" "\<not> skipped b (jj, ii)"
  shows "\<exists>b'. factorise cp P b = (Inr (), b') \<and> {bu_p b', bu_q b'} = {p, q}"
proof -
  let ?keys = "map (\<lambda>i. genKeys cp (par_L P) (bu_signatures b i)) [0..<par_R P]"
  let ?xs = "List.product [0..<par_R P] [0..<par_L P]"
  have "skipped b x \<or> holds_roots cp b ?keys x" if "x \<in> set ?xs" for x
  proof -
    obtain j i where x: "x = (j, i)" "j < par_R P" "i < par_L P" using \<open>x \<in> set ?xs\<close> by auto
    show ?thesis unfolding x(1) by (rule all [OF x(2,3)])
  qed
  moreover have "(jj, ii) \<in> set ?xs" using one by simp
  ultimately obtain p' q' where "factor_loop cp b ?keys ?xs = Inr (p', q')" "{p', q'} = {p, q}"
    using factor_loop_finds [OF laws p q pq n, of ?xs ?keys] one(3) by blast
  then show ?thesis by (simp add: factorise_def Let_def)
qed

lemma factor_loop_product:
  assumes "factor_loop cp b keys xs = Inr (p, q)"
  shows "p * q = bu_n b"
  using assms
proof (induction xs)
  case Nil
  then show ?case by simp
next
  case (Cons x xs)
  obtain j i where x: "x = (j, i)" by (cases x)
  show ?case
  proof (cases "skipped b x")
    case True
    then show ?thesis using Cons by (simp add: x skipped_def)
  next
    case False
    obtain u v where d: "dec_array cp (keys ! j ! i) (rcv_m (bu_d1 b j i)) = Inr u"
      "dec_array cp (keys ! j ! i) (rcv_m (bu_d2 b j i)) = Inr v"
      using Cons.prems False
      by (cases "dec_array cp (keys ! j ! i) (rcv_m (bu_d1 b j i))";
          cases "dec_array cp (keys ! j ! i) (rcv_m (bu_d2 b j i))") (simp_all add: x skipped_def)
    show ?thesis using Cons.prems Cons.IH False d
      by (simp add: x skipped_def Let_def split: if_splits)
  qed
qed

section \<open>What the two threads leave\<close>

lemma get_signature_quiet: "quiet (get_signature cp env P)"
  unfolding get_signature_def by (intro quiet_rules) simp_all

lemma factorise_product: "factorise cp P b = (Inr (), b') \<Longrightarrow> bu_p b' * bu_q b' = bu_n b'"
  by (auto simp: factorise_def Let_def dest: factor_loop_product split: sum.splits)

lemma lifted_Inr: "(case f of (r, b) \<Rightarrow> (r, g b)) = (Inr x, w') \<longleftrightarrow> (\<exists>b. f = (Inr x, b) \<and> w' = g b)"
  by (auto split: prod.splits)

lemma get_signature_factors:
  assumes "get_signature cp env P w = (Inr (), w')"
  shows "bu_p (w_buyer w') * bu_q (w_buyer w') = bu_n (w_buyer w')"
proof -
  have "\<exists>b. factorise cp P b = (Inr (), w_buyer w')"
    using assms by (auto simp: get_signature_def and_then_Inr seq_Inr lifted_Inr)
  then show ?thesis using factorise_product by blast
qed

text \<open>A call to redeem the payment was made and answered with true.\<close>

definition redeemed :: "rpc \<Rightarrow> rpc_call list \<Rightarrow> bool" where
  "redeemed env calls \<longleftrightarrow> (\<exists>k<length calls. is_redeem (calls ! k) \<and> rpc_bool env (take k calls) (calls ! k) = Inr True)"

lemma redeemed_append: "redeemed env calls \<Longrightarrow> redeemed env (calls @ cs)"
proof -
  assume "redeemed env calls"
  then obtain k where "k < length calls" "is_redeem (calls ! k)"
    "rpc_bool env (take k calls) (calls ! k) = Inr True" by (auto simp: redeemed_def)
  then show "redeemed env (calls @ cs)"
    unfolding redeemed_def by (intro exI [of _ k]) (simp add: nth_append)
qed

lemma redeem_loop_result:
  assumes "redeem_loop cp env P res js w = Some (r, w')"
  shows "w_buyer w' = w_buyer w \<and> w_seller w' = w_seller w \<and> (\<exists>cs. w_calls w' = w_calls w @ cs) \<and>
    (r = Inr True \<longrightarrow> res \<or> redeemed env (w_calls w'))"
  using assms
proof (induction js arbitrary: res w)
  case Nil
  then show ?case by auto
next
  case (Cons j js)
  show ?case
  proof (cases "\<not> res \<and> (\<exists>b ds_bytes ds. at_vector (bu_single_buyers (w_buyer w)) j = Inr b \<and>
      force_open cp (sb_receiver b) = Some (Inr ds_bytes) \<and> bits_to_integer cp ds_bytes = Inr ds)")
    case False
    then show ?thesis using Cons.prems
      by (auto split: if_splits sum.splits option.splits)
  next
    case True
    then obtain b ds_bytes ds where b: "at_vector (bu_single_buyers (w_buyer w)) j = Inr b"
      "force_open cp (sb_receiver b) = Some (Inr ds_bytes)" "bits_to_integer cp ds_bytes = Inr ds" by blast
    define c where "c = RedeemTransaction (bu_T1 (w_buyer w)) (bu_original_T1_output_script (w_buyer w))
      (integer2string cp (ds * B_db (sb_share b) mod B_get_n (sb_share b)))
      (integer2string cp (x_coord (B_Q (sb_share b)))) (integer2string cp (y_coord (B_Q (sb_share b)))) (par_R P)"
    let ?w = "w\<lparr>w_calls := w_calls w @ [c]\<rparr>"
    show ?thesis
    proof (cases "rpc_bool env (w_calls w) c")
      case (Inl e)
      then show ?thesis using Cons.prems True b by (auto simp: rpc_call_def c_def)
    next
      case (Inr res1)
      have run: "redeem_loop cp env P res1 js ?w = Some (r, w')"
        using Cons.prems True b Inr by (auto simp: rpc_call_def c_def)
      have "redeemed env (w_calls ?w)" if res1
        using that Inr unfolding redeemed_def
        by (intro exI [of _ "length (w_calls w)"]) (simp add: c_def)
      then show ?thesis using Cons.IH [OF run] redeemed_append by fastforce
    qed
  qed
qed

lemma solve_time_lock_result:
  assumes "solve_time_lock cp env P w = Some (r, w')"
  shows "w_buyer w' = w_buyer w \<and> (\<exists>cs. w_calls w' = w_calls w @ cs) \<and>
    (r = Inr () \<longrightarrow> redeemed env (w_calls w'))"
  using assms redeem_loop_result [of cp env P False "[0..<par_R P]" w]
  by (auto simp: solve_time_lock_def split: option.splits sum.splits if_splits)

section \<open>Properties\<close>


text \<open>A buyer for the witnesses, with one pair of opened ciphertexts.\<close>

definition ref_buyer :: "byte list \<Rightarrow> byte list \<Rightarrow> buyer" where
  "ref_buyer c1 c2 = \<lparr>bu_n = 77, bu_seller_address = [], bu_T1 = [], bu_T1_output_script = [],
     bu_original_T1_output_script = [], bu_T2 = [], bu_T2_hash = [], bu_price = 0,
     bu_x = (\<lambda>j i. 0), bu_y = (\<lambda>j i. 0), bu_r = [], bu_indices = (\<lambda>j. []), bu_signatures = (\<lambda>j. []),
     bu_p = 0, bu_q = 0, bu_single_buyers = [],
     bu_d1 = (\<lambda>j i. \<lparr>rcv_open_verified = True, rcv_m = c1, rcv_seed = [], rcv_com = []\<rparr>),
     bu_d2 = (\<lambda>j i. \<lparr>rcv_open_verified = True, rcv_m = c2, rcv_seed = [], rcv_com = []\<rparr>)\<rparr>"

definition ref_one :: params where
  "ref_one = \<lparr>par_T = 1, par_K = 3, par_L = 1, par_R = 1\<rparr>"

lemma ref_dec: "dec_array ref_cryptopp key (1 # bs) = Inr bs"
  by (simp add: dec_array_def dec_key_def ref_cryptopp_def)


text \<open>
  A pair of ciphertexts of one and the same root is taken for a factorisation: the loop ends with
  \<open>n\<close> itself and 1, and later pairs are not looked at.
\<close>

theorem factorise_trivial:
  assumes laws: "modular_laws cp" and n: "0 < bu_n b" "0 < par_R P" "0 < par_L P"
    and opened: "rcv_m (bu_d1 b 0 0) \<noteq> []" "rcv_m (bu_d2 b 0 0) \<noteq> []"
    and dec: "dec_array cp (genKeys cp (par_L P) (bu_signatures b 0) ! 0) (rcv_m (bu_d1 b 0 0)) = Inr x"
      "dec_array cp (genKeys cp (par_L P) (bu_signatures b 0) ! 0) (rcv_m (bu_d2 b 0 0)) = Inr y"
    and same: "decode_bytes cp x = r" "decode_bytes cp y = r" "0 \<le> r" "coprime (2 * r) (bu_n b)"
  shows "factorise cp P b = (Inr (), b\<lparr>bu_p := bu_n b, bu_q := 1\<rparr>)"
proof -
  let ?keys = "map (\<lambda>i. genKeys cp (par_L P) (bu_signatures b i)) [0..<par_R P]"
  obtain rest where xs: "List.product [0..<par_R P] [0..<par_L P] = (0, 0) # rest"
    using n(2,3) by (simp add: upt_conv_Cons)
  have "gcd (r + r) (bu_n b) = 1" using same(4) by (simp add: coprime_iff_gcd_eq_1 flip: mult_2)
  then have "factor_loop cp b ?keys ((0, 0) # rest) = Inr (bu_n b, 1)"
    using opened dec same(1-3) n laws
    by (simp add: abs_integer_def integer_gcd_eq Let_def)
  then show ?thesis by (simp add: factorise_def Let_def xs)
qed

theorem factorise_trivial_witness:
  "factorise ref_cryptopp ref_one (ref_buyer [1, 2] [1, 2])
    = (Inr (), (ref_buyer [1, 2] [1, 2])\<lparr>bu_p := 77, bu_q := 1\<rparr>)"
proof -
  have "coprime (2 * 2 :: int) 77" by (rule coprime_bezout [of "-19" _ 1]) simp
  then show ?thesis
    using factorise_trivial [OF ref_laws(2), of "ref_buyer [1, 2] [1, 2]" ref_one "[2]" "[2]" 2]
    by (simp add: ref_buyer_def ref_one_def ref_dec ref_simps ref_decode_def)
qed

text \<open>
  One ciphertext that does not decrypt ends the factorisation with the exception of the library,
  however many good pairs follow.
\<close>

theorem factorise_stops_at_bad_ciphertext:
  assumes n: "0 < par_R P" "0 < par_L P"
    and opened: "rcv_m (bu_d1 b 0 0) \<noteq> []" "rcv_m (bu_d2 b 0 0) \<noteq> []"
    and bad: "aes_ecb_decrypt cp (genKeys cp (par_L P) (bu_signatures b 0) ! 0) (rcv_m (bu_d1 b 0 0)) = None"
  shows "factorise cp P b = (Inl InvalidCiphertext, b)"
proof -
  obtain rest where xs: "List.product [0..<par_R P] [0..<par_L P] = (0, 0) # rest"
    using n by (simp add: upt_conv_Cons)
  show ?thesis using assms by (simp add: factorise_def Let_def xs dec_array_def dec_key_def)
qed

theorem factorise_stops_at_bad_ciphertext_witness:
  "factorise ref_cryptopp ref_one (ref_buyer [0, 2] [1, 9]) = (Inl InvalidCiphertext, ref_buyer [0, 2] [1, 9])"
  by (rule factorise_stops_at_bad_ciphertext) (simp_all add: ref_buyer_def ref_one_def ref_cryptopp_def)

text \<open>A server for the witness, which finds the transaction and a signature.\<close>

definition ref_server :: rpc where
  "ref_server = \<lparr>rpc_bool = (\<lambda>log c. Inr True), rpc_string = (\<lambda>log c. Inr (replicate 32 (char_of (1 :: nat)))),
     rpc_scripts = (\<lambda>log c. Inr \<lparr>ts_tx = [char_of (1 :: nat)], ts_original_script = [], ts_script = []\<rparr>),
     rpc_pairs = (\<lambda>log c. Inr [([], [])])\<rparr>"

lemma ref_get_signature:
  assumes "w_buyer w = ref_buyer [1, 2] [1, 9]"
  shows "\<exists>w'. get_signature ref_cryptopp ref_server ref_one w = (Inr (), w')"
proof -
  have p: "prime_integer 7" "prime_integer 11" by (simp_all add: prime_integer_code upto_rec_numeral)
  let ?b = "\<lambda>sigs. (ref_buyer [1, 2] [1, 9])\<lparr>bu_signatures := sigs\<rparr>"
  have "\<exists>b'. factorise ref_cryptopp ref_one (?b sigs) = (Inr (), b')" for sigs
  proof -
    let ?keys = "map (\<lambda>i. genKeys ref_cryptopp (par_L ref_one) (sigs i)) [0..<par_R ref_one]"
    have "\<exists>p' q'. factor_loop ref_cryptopp (?b sigs) ?keys [(0, 0)] = Inr (p', q') \<and> {p', q'} = {7, 11}"
      by (rule factor_loop_finds [OF ref_laws(2) p])
        (simp_all add: skipped_def holds_roots_def ref_buyer_def ref_dec ref_simps ref_decode_def half_roots_def)
    then obtain p' q' where eq: "factor_loop ref_cryptopp (?b sigs) ?keys [(0, 0)] = Inr (p', q')" by blast
    have "List.product [0..<par_R ref_one] [0..<par_L ref_one] = [(0, 0)]" by (simp add: ref_one_def)
    with eq show ?thesis by (simp add: factorise_def Let_def del: factor_loop.simps)
  qed
  then have f: "\<exists>b'. factorise ref_cryptopp ref_one (?b sigs) = (Inr (), b')" for sigs .
  let ?z = "decode_bytes ref_cryptopp (string2v [])"
  let ?sig = "encode_signature ref_cryptopp ?z ?z"
  obtain b' where b': "factorise ref_cryptopp ref_one (?b ((\<lambda>j. [])(0 := ?sig))) = (Inr (), b')"
    using f by blast
  have u: "(ref_buyer [1, 2] [1, 9])\<lparr>bu_signatures := (bu_signatures (ref_buyer [1, 2] [1, 9]))(0 := x)\<rparr>
      = ?b ((\<lambda>j. [])(0 := x))" for x
    by (simp add: ref_buyer_def)
  show ?thesis
    using assms b'
    by (simp add: get_signature_def seq_def and_then_def rpc_call_def ref_server_def ref_one_def read_signature_def
        at_vector_def on_buyer_def Let_def u)
qed

end
