(* ===== verification/Ecdsa.thy ===== *)
theory Ecdsa
  imports Shared_Signature
begin

text \<open>
  shared_signature/ecdsa.cpp: ECDSA by a single party on the integers of the library, a program of
  its own beside the two-party protocol. It is the specification of that protocol: what S and B
  compute together is the signature one party would make with the product of their keys and the
  product of their nonces, normalised to its lower half.
\<close>

section \<open>The program\<close>

text \<open>The signature of the integer \<open>z\<close> under the key \<open>da\<close> with the nonce \<open>k\<close>.\<close>

definition ecdsa_sign :: "cryptopp \<Rightarrow> ec \<Rightarrow> int \<Rightarrow> int \<Rightarrow> int \<Rightarrow> int \<times> int" where
  "ecdsa_sign cp ec da k z =
     (let n = ec_order ec; G = ec_generator ec;
          P1 = ec_multiply ec k G;
          r = x_coord P1 mod n;
          s = (inverse_mod cp k n * (z + r * da)) mod n
      in (r, s))"

text \<open>The checks: an early return with a message, or the comparison of the coordinate.\<close>

definition ecdsa_check :: "cryptopp \<Rightarrow> ec \<Rightarrow> ec_point \<Rightarrow> int \<Rightarrow> int \<Rightarrow> int \<Rightarrow> string + bool" where
  "ecdsa_check cp ec Qa z r s =
     (let n = ec_order ec; G = ec_generator ec
      in if Qa = Identity then Inl ''Qa == O''
         else if \<not> ec_multiply ec n Qa = Identity then Inl ''n x Qa != O''
         else if r \<le> 0 \<or> r \<ge> n then Inl ''incorrect r''
         else if s \<le> 0 \<or> s \<ge> n then Inl ''incorrect s''
         else
           let w = inverse_mod cp s n;
               u1 = (z * w) mod n;
               u2 = (r * w) mod n;
               P2 = ec_add ec (ec_multiply ec u1 G) (ec_multiply ec u2 Qa)
           in Inr (x_coord P2 = r))"

text \<open>
  The exit status and the lines written after the parameters of the curve, on either stream. The
  library's verifier of a public key, a message and the 64 bytes of a signature is \<open>lib_verify\<close>.
\<close>

definition ecdsa_main ::
    "cryptopp \<Rightarrow> ec \<Rightarrow> (ec_point \<Rightarrow> byte list \<Rightarrow> byte list \<Rightarrow> bool) \<Rightarrow> int \<Rightarrow> int \<Rightarrow> exn + (int \<times> string list)" where
  "ecdsa_main cp ec lib_verify da k =
     (let n = ec_order ec;
          Qa = ec_multiply ec da (ec_generator ec);
          message = string2v ''to be or not to be''
      in sum_then (m_to_int cp message (byte_count cp n)) (\<lambda>z.
         let (r, s) = ecdsa_sign cp ec da k z
         in case ecdsa_check cp ec Qa z r s of
              Inl line \<Rightarrow> Inr (1, [line])
            | Inr ok \<Rightarrow>
                let signature = encode_bytes cp r 32 @ encode_bytes cp s 32;
                    result = lib_verify Qa message signature
                in Inr (0, [if ok then ''OK'' else ''FAIL'',
                            if result then ''Verified signature on message''
                            else ''Failed to verify signature on message''])))"

section \<open>What the signature solves\<close>

lemma ecdsa_sign_equation:
  assumes cset: "curve_setup cp ec" and k: "0 < k" "k < ec_order ec"
    and rs: "ecdsa_sign cp ec da k z = (r, s)" and nz: "\<not> ec_order ec dvd z + r * da"
  shows "sig_equation ec z da k r s" "r = x_coord (ec_multiply ec k (ec_generator ec)) mod ec_order ec"
proof -
  let ?n = "ec_order ec"
  note laws = curve_setup_laws [OF cset]
  define V where "V = inverse_mod cp k ?n"
  have "\<not> ?n dvd k" using k by (simp add: zdvd_not_zless)
  then have "coprime k ?n" using prime_integer_coprime [OF laws(7)] coprime_commute by blast
  then have "k * V mod ?n = 1" using inverse_mod_inverse(3) [OF laws(1,6)] by (simp add: V_def)
  then obtain c where c: "k * V = 1 + ?n * c" by (metis mult_div_mod_eq add.commute)
  have sv: "s = V * (z + r * da) mod ?n" and rv: "r = x_coord (ec_multiply ec k (ec_generator ec)) mod ?n"
    using rs by (auto simp: ecdsa_sign_def Let_def V_def)
  show "r = x_coord (ec_multiply ec k (ec_generator ec)) mod ?n" by (rule rv)
  obtain e where e: "s = V * (z + r * da) - ?n * e" using sv by (metis minus_mult_div_eq_mod)
  have "s * k - (z + r * da) = (k * V - 1) * (z + r * da) - ?n * (e * k)"
    unfolding e by (simp add: algebra_simps)
  then have eq: "?n dvd s * k - (z + r * da)" unfolding c by simp
  moreover have "0 \<le> s" "s < ?n" using sv laws(6) by simp_all
  moreover have "s \<noteq> 0"
  proof
    assume "s = 0"
    then have "?n dvd - (z + r * da)" using eq by simp
    then show False using nz by (simp only: dvd_minus_iff)
  qed
  ultimately show "sig_equation ec z da k r s" by (simp add: sig_equation_def)
qed

lemma sig_equation_unique:
  assumes prime: "prime_integer (ec_order ec)" and k: "\<not> ec_order ec dvd k"
    and eq: "k mod ec_order ec = k' mod ec_order ec" "d mod ec_order ec = d' mod ec_order ec"
    and s: "sig_equation ec z d k r s" and s': "sig_equation ec z d' k' r s'"
  shows "s = s'"
proof -
  let ?n = "ec_order ec"
  have 1: "?n dvd s * k - (z + r * d)" and 2: "?n dvd s' * k' - (z + r * d')"
    using s s' by (simp_all add: sig_equation_def)
  have kk: "?n dvd k - k'" and dd: "?n dvd d - d'" using eq by (simp_all add: mod_eq_dvd_iff)
  have e: "(s - s') * k = (s * k - (z + r * d)) - (s' * k' - (z + r * d')) - s' * (k - k') + r * (d - d')"
    by (simp add: algebra_simps)
  have "?n dvd (s - s') * k"
    unfolding e by (intro dvd_add dvd_diff 1 2 dvd_mult kk dd)
  then have "?n dvd s - s'" using k prime_integer_dvd_mult [OF prime] by blast
  then have "s mod ?n = s' mod ?n" by (simp add: mod_eq_dvd_iff)
  then show ?thesis using s s' by (simp add: sig_equation_def)
qed

lemma key_multiple_mod:
  fixes z :: int
  shows "n dvd z + r * (d mod n) \<longleftrightarrow> n dvd z + r * d"
proof -
  have "(z + r * (d mod n)) mod n = (z + r * d) mod n" by (metis mod_add_right_eq mod_mult_right_eq)
  then show ?thesis by (simp add: dvd_eq_mod_eq_0)
qed

lemma verify_signature_check:
  assumes "modular_laws cp" "0 < ec_order ec" "hash_m_to_int cp m (byte_count cp (ec_order ec)) = Inr z"
  shows "verify_signature cp ec Q m r s = Inr (case ecdsa_check cp ec Q z r s of Inl line \<Rightarrow> False | Inr ok \<Rightarrow> ok)"
  using assms by (simp add: verify_signature_def ecdsa_check_def Let_def lib_laws)

section \<open>Properties\<close>

text \<open>
  C5: the two-party protocol refines ECDSA. For parties that can sign, \<open>r\<close> is the one and \<open>s\<close> the
  lower half of the one that a single party gets for the message with the key \<open>ds * db\<close> and the nonce
  \<open>kb * ks\<close>, which neither of the two knows.
\<close>

theorem two_party_refines_ecdsa:
  assumes fresh: "ss_fresh cp ec m kd sd S B"
  shows "\<exists>S' B'. seq (ss_init kd) (ss_exec cp ec sd) (S, B) = (Inr (), S', B')
    \<and> (S_r S', S_s S') = (let n = ec_order ec;
         (r, s) = ecdsa_sign cp ec (draw_ds kd * draw_db kd mod n) (draw_kb sd * draw_ks sd mod n) (message_int cp ec m)
         in (r, low_s n s))"
proof -
  let ?n = "ec_order ec" and ?k = "draw_kb sd * draw_ks sd" and ?d = "shared_key kd"
  have cset: "curve_setup cp ec" and nz: "\<not> ?n dvd message_int cp ec m + nonce_r ec sd * ?d"
    and dr: "0 < draw_ks sd" "draw_ks sd < ?n" "0 < draw_kb sd" "draw_kb sd < ?n"
    using fresh by (simp_all add: ss_fresh_def draws_ok_def)
  note laws = curve_setup_laws [OF cset]
  obtain S' B' s0 where run: "seq (ss_init kd) (ss_exec cp ec sd) (S, B) = (Inr (), S', B')"
    and r: "S_r S' = nonce_r ec sd"
    and s0: "sig_equation ec (message_int cp ec m) ?d ?k (nonce_r ec sd) s0" "S_s S' = low_s ?n s0"
    using ss_run [OF fresh] unfolding joint_s_def by blast
  have "\<not> ?n dvd draw_ks sd" "\<not> ?n dvd draw_kb sd" using dr by (simp_all add: zdvd_not_zless)
  then have nk: "\<not> ?n dvd ?k" using prime_integer_dvd_mult [OF laws(7)] by blast
  have k: "0 < ?k mod ?n" "?k mod ?n < ?n"
  proof -
    have "0 \<le> ?k mod ?n" "?k mod ?n \<noteq> 0" using laws(6) nk by (simp_all add: dvd_eq_mod_eq_0)
    then show "0 < ?k mod ?n" by simp
    show "?k mod ?n < ?n" using laws(6) by simp
  qed
  obtain r1 s1 where e: "ecdsa_sign cp ec (?d mod ?n) (?k mod ?n) (message_int cp ec m) = (r1, s1)"
    by (metis surj_pair)
  have "ec_multiply ec (?k mod ?n) (ec_generator ec) = ec_multiply ec ?k (ec_generator ec)"
    using ec_generator_eq_iff [OF laws(4), of "?k mod ?n" ?k] k dr by simp
  then have r1: "r1 = nonce_r ec sd" using e by (auto simp: ecdsa_sign_def Let_def nonce_r_def nonce_x_def)
  have "\<not> ?n dvd message_int cp ec m + r1 * (?d mod ?n)" using nz by (simp add: r1 key_multiple_mod)
  from ecdsa_sign_equation(1) [OF cset k e this]
  have "sig_equation ec (message_int cp ec m) (?d mod ?n) (?k mod ?n) (nonce_r ec sd) s1" by (simp add: r1)
  from sig_equation_unique [OF laws(7) nk _ _ s0(1) this] have "s0 = s1" by simp
  then show ?thesis using run r s0(2) e r1 by (simp add: shared_key_def)
qed

theorem two_party_refines_ecdsa_witness:
  "\<exists>S B S' B'. seq (ss_init \<lparr>draw_ds = 1, draw_db = 1\<rparr>) (ss_exec ref_cryptopp (ref_ec 0)
       \<lparr>draw_ks = 1, draw_rs = 1, draw_kb = 1, draw_r1 = 1, draw_u = 0, draw_r2 = 1\<rparr>) (S, B)
     = (Inr (), S', B')
   \<and> (S_r S', S_s S') = (let (r, s) = ecdsa_sign ref_cryptopp (ref_ec 0) 1 1 1 in (r, low_s 5 s))"
proof -
  let ?kd = "\<lparr>draw_ds = 1, draw_db = 1\<rparr>"
  let ?sd = "\<lparr>draw_ks = 1, draw_rs = 1, draw_kb = 1, draw_r1 = 1, draw_u = 0, draw_r2 = 1\<rparr>"
  obtain S B where ok: "parties_ok ref_cryptopp (ref_ec 0) (replicate 32 1) S B"
    using ref_parties by blast
  have x: "nonce_x (ref_ec 0) ?sd = 1" by (simp add: nonce_x_def ref_ec_simps ref_point_def)
  have "ss_fresh ref_cryptopp (ref_ec 0) (replicate 32 1) ?kd ?sd S B"
    using ok by (simp add: ss_fresh_def ref_curve_setup draws_ok_def x nonce_r_def ref_message_int
        shared_key_def) (simp add: ref_ec_simps)
  from two_party_refines_ecdsa [OF this] show ?thesis
    by (simp add: ref_message_int ref_ec_simps(4) Let_def) blast
qed

text \<open>
  C39: the verification of shared_sig.cpp accepts exactly what the checks of ecdsa.cpp accept, for
  every point, message and pair; it only reports every refusal as false.
\<close>

theorem verify_is_ecdsa_check:
  assumes "modular_laws cp" "0 < ec_order ec"
  shows "verify_signature cp ec Q message r s =
    sum_then (hash_m_to_int cp message (byte_count cp (ec_order ec))) (\<lambda>z.
      Inr (case ecdsa_check cp ec Q z r s of Inl line \<Rightarrow> False | Inr ok \<Rightarrow> ok))"
proof (cases "hash_m_to_int cp message (byte_count cp (ec_order ec))")
  case (Inl e)
  then show ?thesis by (simp add: verify_signature_def Let_def)
next
  case (Inr z)
  then show ?thesis by (simp add: verify_signature_check [OF assms Inr])
qed

theorem verify_is_ecdsa_check_witness:
  "verify_signature ref_cryptopp (ref_ec 0) Identity (replicate 32 1) 1 1 = Inr False"
  using verify_is_ecdsa_check [OF ref_laws(2), of "ref_ec 0" Identity "replicate 32 1" 1 1]
  by (simp add: ref_ec_simps hash_m_to_int_def read_integer_def ref_simps ref_size.simps ecdsa_check_def)

text \<open>
  The program prints OK for a key and a nonce in their ranges, when the coordinate of the nonce
  point is below the group order and not zero and \<open>s\<close> is not zero.
\<close>

theorem ecdsa_main_accepts:
  assumes cset: "curve_setup cp ec" and hash: "hash_laws cp"
    and da: "0 < da" "da < ec_order ec" and k: "0 < k" "k < ec_order ec"
    and r: "0 < x_coord (ec_multiply ec k (ec_generator ec))"
      "x_coord (ec_multiply ec k (ec_generator ec)) < ec_order ec"
    and nz: "\<not> ec_order ec dvd message_int cp ec (sha256_digest cp (string2v ''to be or not to be''))
      + x_coord (ec_multiply ec k (ec_generator ec)) * da"
  shows "\<exists>line. ecdsa_main cp ec lib_verify da k = Inr (0, [''OK'', line])"
proof -
  let ?n = "ec_order ec" and ?m = "sha256_digest cp (string2v ''to be or not to be'')"
  let ?z = "message_int cp ec ?m" and ?Q = "ec_multiply ec da (ec_generator ec)"
  note laws = curve_setup_laws [OF cset]
  have len: "length ?m = 32" using hash by (simp add: lib_laws)
  have z: "m_to_int cp (string2v ''to be or not to be'') (byte_count cp ?n) = Inr ?z"
    using len laws(5) by (simp add: m_to_int_def read_integer_def message_int_def)
  obtain r1 s where e: "ecdsa_sign cp ec da k ?z = (r1, s)" by (metis surj_pair)
  then have r1: "r1 = x_coord (ec_multiply ec k (ec_generator ec))"
    using r by (auto simp: ecdsa_sign_def Let_def)
  have eq: "sig_equation ec ?z da k r1 s" by (rule ecdsa_sign_equation(1) [OF cset k e]) (use nz r1 in simp)
  have d: "0 \<le> da" "\<not> ?n dvd da" using da by (simp_all add: zdvd_not_zless)
  have "verify_signature cp ec ?Q ?m r1 s = Inr True"
    using verify_signature_nonce [OF cset len d, of r1 s k] r r1 eq k by (simp add: sig_equation_def)
  then have "ecdsa_check cp ec ?Q ?z r1 s = Inr True"
    using verify_signature_check [OF laws(1) _ hash_m_to_int_message [OF cset len], of ?Q r1 s] laws(6)
    by (simp split: sum.splits)
  then show ?thesis by (simp add: ecdsa_main_def z e Let_def)
qed

theorem ecdsa_main_accepts_witness:
  "\<exists>line. ecdsa_main ref_cryptopp (ref_ec 0) (\<lambda>Q m s. True) 1 1 = Inr (0, [''OK'', line])"
proof -
  have "x_coord (ec_multiply (ref_ec 0) 1 (ec_generator (ref_ec 0))) = 1"
    by (simp add: ref_ec_simps ref_point_def)
  moreover have "\<not> 5 dvd message_int ref_cryptopp (ref_ec 0)
      (sha256_digest ref_cryptopp (string2v ''to be or not to be'')) + 1"
    by (simp add: message_int_def ref_simps ref_ec_simps string2v_def ref_size.simps ref_decode_def byte_of_char_def)
  ultimately show ?thesis
    using ecdsa_main_accepts [OF ref_curve_setup ref_laws(5), of 0 1 1 "\<lambda>Q m s. True"]
    by (simp add: ref_ec_simps(4))
qed

end
