(* ===== verification/Honest_Round.thy ===== *)
theory Honest_Round
  imports Settlement
begin

text \<open>
  One round of the second cut-and-choose of main/sell_information.cpp between an honest seller and
  an honest buyer: every loop over the \<open>L\<close> squares is solved into one equation on the rows of the
  tables, and the equations are put together to the state the round leaves.
\<close>

section \<open>Rows of a table\<close>

text \<open>The entries of row \<open>j\<close> in a set of columns replaced.\<close>

definition fill :: "nat \<Rightarrow> nat set \<Rightarrow> (nat \<Rightarrow> 'a) \<Rightarrow> 'a table \<Rightarrow> 'a table" where
  "fill j A f t = t(j := (\<lambda>i. if i \<in> A then f i else t j i))"

lemma fill_entry: "fill j A f t j' i = (if j' = j \<and> i \<in> A then f i else t j' i)"
  by (simp add: fill_def)

lemma fill_next [simp]: "i \<notin> A \<Longrightarrow> fill j A f t j i = t j i"
  by (simp add: fill_def)

lemma fill_here [simp]: "i \<in> A \<Longrightarrow> fill j A f t j i = f i"
  by (simp add: fill_def)

lemma fill_row [simp]: "j' \<noteq> j \<Longrightarrow> fill j A f t j' i = t j' i"
  by (simp add: fill_def)

lemma fill_empty [simp]: "fill j {} f t = t"
  by (simp add: fill_def)

lemma put_fill [simp]: "x = f i \<Longrightarrow> put j i x (fill j A f t) = fill j (insert i A) f t"
  by (auto simp: fill_def put_def fun_eq_iff)

lemma put_entry [simp]: "put j i x t j' i' = (if j' = j \<and> i' = i then x else t j' i')"
  by (simp add: put_def)

lemma put_same [simp]: "put j i (t j i) t = t"
  by (auto simp: put_def fun_eq_iff)

lemma put_put [simp]: "put j i x (put j i y t) = put j i x t"
  by (auto simp: put_def fun_eq_iff)

section \<open>Squares, roots and ciphertexts\<close>

lemma genSquares_eq:
  "genSquares L x j b = b\<lparr>bu_x := fill j {..<L} x (bu_x b),
     bu_y := fill j {..<L} (\<lambda>i. x i * x i mod bu_n b) (bu_y b)\<rparr>"
  by (induction L) (simp_all add: genSquares_def Let_def lessThan_Suc)

definition root1 :: "(nat \<Rightarrow> bool) \<Rightarrow> (nat \<Rightarrow> int list) \<Rightarrow> nat \<Rightarrow> int" where
  "root1 bits rs i = (if bits i then rs i ! 1 else rs i ! 0)"

definition root2 :: "(nat \<Rightarrow> bool) \<Rightarrow> (nat \<Rightarrow> int list) \<Rightarrow> nat \<Rightarrow> int" where
  "root2 bits rs i = (if bits i then rs i ! 0 else rs i ! 1)"

lemma findRoots_run:
  assumes "\<And>i. i < L \<Longrightarrow> all_square_roots cp (se_square_root s) (se_y s j i) = Inr (rs i)"
  shows "findRoots cp L bits j s = (Inr (), s\<lparr>se_r1 := fill j {..<L} (root1 bits rs) (se_r1 s),
    se_r2 := fill j {..<L} (root2 bits rs) (se_r2 s)\<rparr>)"
  using assms
proof (induction L)
  case 0
  then show ?case by (simp add: findRoots_def)
next
  case (Suc L)
  then show ?case
    by (auto simp: findRoots_def for_each_append find_root_def Let_def lessThan_Suc root1_def root2_def)
qed

text \<open>The key of a kept execution that encrypts the \<open>i\<close>-th pair of roots.\<close>

definition pair_key :: "seller \<Rightarrow> nat \<Rightarrow> nat \<Rightarrow> byte list" where
  "pair_key s j i = snd_m (sl_keys_commits (se_single_sellers s ! j) ! i)"

lemma encryptRoots_run:
  assumes "j < length (se_single_sellers s)" "L \<le> length (sl_keys_commits (se_single_sellers s ! j))"
    and "\<And>i. i < L \<Longrightarrow> length (pair_key s j i) = AES_LENGTH"
  shows "encryptRoots cp L j s = (Inr (), s\<lparr>
    se_c1 := fill j {..<L} (\<lambda>i. enc_key cp (pair_key s j i) (to_bytes cp (se_r1 s j i))) (se_c1 s),
    se_c2 := fill j {..<L} (\<lambda>i. enc_key cp (pair_key s j i) (to_bytes cp (se_r2 s j i))) (se_c2 s)\<rparr>)"
  using assms(2,3)
proof (induction L)
  case 0
  then show ?case by (simp add: encryptRoots_def)
next
  case (Suc L)
  then show ?case
    using assms(1)
    by (simp add: encryptRoots_def for_each_append encrypt_root_def Let_def lessThan_Suc at_vector_def
        enc_vector_def pair_key_def)
qed

lemma setupCommit_eq:
  "setupCommit L j s = s\<lparr>se_d1 := fill j {..<L} (\<lambda>i. (se_d1 s j i)\<lparr>snd_m := se_c1 s j i\<rparr>) (se_d1 s),
     se_d2 := fill j {..<L} (\<lambda>i. (se_d2 s j i)\<lparr>snd_m := se_c2 s j i\<rparr>) (se_d2 s)\<rparr>"
  by (induction L) (simp_all add: setupCommit_def lessThan_Suc)

section \<open>Commitments\<close>

text \<open>What \<open>exec\<close> and an accepted \<open>open\<close> of a hash commitment make of the two parties.\<close>

definition sha_sent :: "cryptopp \<Rightarrow> byte list \<Rightarrow> sha_sender \<Rightarrow> sha_sender" where
  "sha_sent cp block s = s\<lparr>snd_seed := block, snd_com := compute_sha cp (snd_m s) block\<rparr>"

definition sha_received :: "cryptopp \<Rightarrow> byte list \<Rightarrow> sha_sender \<Rightarrow> sha_receiver \<Rightarrow> sha_receiver" where
  "sha_received cp block s r = r\<lparr>rcv_com := take COM_SIZE (compute_sha cp (snd_m s) block)\<rparr>"

definition sha_opened :: "sha_sender \<Rightarrow> sha_receiver \<Rightarrow> sha_receiver" where
  "sha_opened s r = r\<lparr>rcv_m := snd_m s, rcv_seed := take sha_N (snd_seed s), rcv_open_verified := True\<rparr>"

lemma sha_exec_eq: "sha_exec cp block (s, r) = (Inr (), sha_sent cp block s, sha_received cp block s r)"
  by (simp add: sha_exec_def sha_sent_def sha_received_def Let_def)

lemma sha_sent_ready: "sha_ready cp (sha_sent cp block s) (sha_received cp block s r)"
  by (rule sha_exec_ready [OF sha_exec_eq])

lemma sha_open_ready: "sha_ready cp s r \<Longrightarrow> sha_open cp (s, r) = (Inr (), s, sha_opened s r)"
  by (simp add: sha_open_eq sha_opened_def sha_ready_def Let_def)

lemma sha_party_fields [simp]:
  "snd_m (sha_sent cp block s) = snd_m s" "rcv_m (sha_received cp block s r) = rcv_m r"
  "rcv_m (sha_opened s r) = snd_m s"
  by (simp_all add: sha_sent_def sha_received_def sha_opened_def)

text \<open>The row of commitments: four tables change, nothing else.\<close>

lemma commit_roots_run:
  "for_each [0..<L] (commit_roots cp dw j) w = (Inr (), w\<lparr>
     w_seller := (w_seller w)\<lparr>
       se_d1 := fill j {..<L} (\<lambda>i. sha_sent cp (dw_seed1 dw j i) (se_d1 (w_seller w) j i)) (se_d1 (w_seller w)),
       se_d2 := fill j {..<L} (\<lambda>i. sha_sent cp (dw_seed2 dw j i) (se_d2 (w_seller w) j i)) (se_d2 (w_seller w))\<rparr>,
     w_buyer := (w_buyer w)\<lparr>
       bu_d1 := fill j {..<L} (\<lambda>i. sha_received cp (dw_seed1 dw j i) (se_d1 (w_seller w) j i)
                                     (bu_d1 (w_buyer w) j i)) (bu_d1 (w_buyer w)),
       bu_d2 := fill j {..<L} (\<lambda>i. sha_received cp (dw_seed2 dw j i) (se_d2 (w_seller w) j i)
                                     (bu_d2 (w_buyer w) j i)) (bu_d2 (w_buyer w))\<rparr>\<rparr>)"
proof (induction L)
  case 0
  then show ?case by simp
next
  case (Suc L)
  then show ?case
    by (simp add: for_each_append commit_roots_def on_d1_def on_d2_def sha_init_def sha_exec_eq
        seq_def and_then_def lessThan_Suc)
qed

section \<open>The check of the subset\<close>

lemma acceptSubset_run:
  assumes "\<And>i. i \<in> set inds \<Longrightarrow> which_root s j i (g i) = Inr (f i)"
  shows "acceptSubset s j inds (map g inds) = Inr (map f inds)"
  using assms by (induction inds) simp_all

text \<open>The key commitments of execution \<open>j\<close> opened in a set of columns.\<close>

definition open_keys :: "seller \<Rightarrow> nat \<Rightarrow> nat set \<Rightarrow> single_buyer list \<Rightarrow> single_buyer list" where
  "open_keys s j A bs = (let kc = sb_keys_commits (bs ! j) in
     bs[j := (bs ! j)\<lparr>sb_keys_commits := map (\<lambda>i. if i \<in> A
       then sha_opened (sl_keys_commits (se_single_sellers s ! j) ! i) (kc ! i) else kc ! i) [0..<length kc]\<rparr>])"

definition open_row1 :: "seller \<Rightarrow> nat \<Rightarrow> nat set \<Rightarrow> buyer \<Rightarrow> sha_receiver table" where
  "open_row1 s j A b = fill j A (\<lambda>i. sha_opened (se_d1 s j i) (bu_d1 b j i)) (bu_d1 b)"

definition open_row2 :: "seller \<Rightarrow> nat \<Rightarrow> nat set \<Rightarrow> buyer \<Rightarrow> sha_receiver table" where
  "open_row2 s j A b = fill j A (\<lambda>i. sha_opened (se_d2 s j i) (bu_d2 b j i)) (bu_d2 b)"

text \<open>The buyer after the columns \<open>A\<close> of the subset were checked; \<open>f\<close> names the commitment opened.\<close>

definition checked :: "seller \<Rightarrow> nat \<Rightarrow> (nat \<Rightarrow> nat) \<Rightarrow> nat set \<Rightarrow> buyer \<Rightarrow> buyer" where
  "checked s j f A b = b\<lparr>bu_single_buyers := open_keys s j A (bu_single_buyers b),
     bu_d1 := open_row1 s j {i \<in> A. f i = 1} b, bu_d2 := open_row2 s j {i \<in> A. f i = 2} b\<rparr>"

lemma open_keys_parts:
  assumes "j < length bs"
  shows "length (open_keys s j A bs) = length bs"
    "sb_keys_commits (open_keys s j A bs ! j) = map (\<lambda>i. if i \<in> A
       then sha_opened (sl_keys_commits (se_single_sellers s ! j) ! i) (sb_keys_commits (bs ! j) ! i)
       else sb_keys_commits (bs ! j) ! i) [0..<length (sb_keys_commits (bs ! j))]"
    "k \<noteq> j \<Longrightarrow> open_keys s j A bs ! k = bs ! k"
    "sb_share (open_keys s j A bs ! k) = sb_share (bs ! k)"
    "sb_receiver (open_keys s j A bs ! k) = sb_receiver (bs ! k)"
proof -
  have o: "open_keys s j A bs ! j = (bs ! j)\<lparr>sb_keys_commits := map (\<lambda>i. if i \<in> A
       then sha_opened (sl_keys_commits (se_single_sellers s ! j) ! i) (sb_keys_commits (bs ! j) ! i)
       else sb_keys_commits (bs ! j) ! i) [0..<length (sb_keys_commits (bs ! j))]\<rparr>"
    using assms by (simp add: open_keys_def Let_def)
  have ne: "open_keys s j A bs ! k = bs ! k" if "k \<noteq> j" for k
    using that by (simp add: open_keys_def Let_def)
  show "length (open_keys s j A bs) = length bs" by (simp add: open_keys_def Let_def)
  show "sb_keys_commits (open_keys s j A bs ! j) = map (\<lambda>i. if i \<in> A
       then sha_opened (sl_keys_commits (se_single_sellers s ! j) ! i) (sb_keys_commits (bs ! j) ! i)
       else sb_keys_commits (bs ! j) ! i) [0..<length (sb_keys_commits (bs ! j))]" by (simp add: o)
  show "k \<noteq> j \<Longrightarrow> open_keys s j A bs ! k = bs ! k" by (rule ne)
  show "sb_share (open_keys s j A bs ! k) = sb_share (bs ! k)"
  proof (cases "k = j")
    case True
    show ?thesis unfolding True o by simp
  qed (simp add: ne)
  show "sb_receiver (open_keys s j A bs ! k) = sb_receiver (bs ! k)"
  proof (cases "k = j")
    case True
    show ?thesis unfolding True o by simp
  qed (simp add: ne)
qed

lemma open_keys_insert:
  assumes "j < length bs" "i < length (sb_keys_commits (bs ! j))" "i \<notin> A"
  shows "(open_keys s j A bs)[j := (open_keys s j A bs ! j)\<lparr>sb_keys_commits :=
      (sb_keys_commits (open_keys s j A bs ! j))[i := sha_opened (sl_keys_commits (se_single_sellers s ! j) ! i)
        (sb_keys_commits (bs ! j) ! i)]\<rparr>] = open_keys s j (insert i A) bs"
proof -
  let ?kc = "sb_keys_commits (bs ! j)"
  let ?o = "\<lambda>A i. if i \<in> A then sha_opened (sl_keys_commits (se_single_sellers s ! j) ! i) (?kc ! i) else ?kc ! i"
  have "(map (?o A) [0..<length ?kc])[i := sha_opened (sl_keys_commits (se_single_sellers s ! j) ! i) (?kc ! i)]
      = map (?o (insert i A)) [0..<length ?kc]"
  proof (rule nth_equalityI)
    fix k assume "k < length ((map (?o A) [0..<length ?kc])[i :=
        sha_opened (sl_keys_commits (se_single_sellers s ! j) ! i) (?kc ! i)])"
    then show "(map (?o A) [0..<length ?kc])[i :=
        sha_opened (sl_keys_commits (se_single_sellers s ! j) ! i) (?kc ! i)] ! k
        = map (?o (insert i A)) [0..<length ?kc] ! k"
      using assms(2) by (cases "k = i") simp_all
  qed simp
  then show ?thesis using assms(1) by (simp add: open_keys_def Let_def)
qed

lemma open_keys_empty [simp]: "open_keys s j {} bs = bs"
  by (cases "j < length bs") (simp_all add: open_keys_def Let_def map_nth list_update_beyond)

lemma checked_empty [simp]: "checked s j f {} b = b"
  by (simp add: checked_def open_row1_def open_row2_def)

lemma on_key_opens:
  assumes j: "j < length (se_single_sellers (w_seller w))" "j < length (bu_single_buyers (w_buyer w))"
    and i: "i < length (sl_keys_commits (se_single_sellers (w_seller w) ! j))"
      "i < length (sb_keys_commits (bu_single_buyers (w_buyer w) ! j))"
    and ready: "sha_ready cp (sl_keys_commits (se_single_sellers (w_seller w) ! j) ! i)
      (sb_keys_commits (bu_single_buyers (w_buyer w) ! j) ! i)"
  shows "on_key j i (sha_open cp) w = (Inr (), w\<lparr>w_buyer := (w_buyer w)\<lparr>bu_single_buyers :=
    (bu_single_buyers (w_buyer w))[j := (bu_single_buyers (w_buyer w) ! j)\<lparr>sb_keys_commits :=
      (sb_keys_commits (bu_single_buyers (w_buyer w) ! j))[i :=
        sha_opened (sl_keys_commits (se_single_sellers (w_seller w) ! j) ! i)
          (sb_keys_commits (bu_single_buyers (w_buyer w) ! j) ! i)]\<rparr>]\<rparr>\<rparr>)"
proof -
  let ?a = "se_single_sellers (w_seller w) ! j"
  have "?a\<lparr>sl_keys_commits := (sl_keys_commits ?a)[i := sl_keys_commits ?a ! i]\<rparr> = ?a" by simp
  then show ?thesis
    using assms by (simp add: on_key_def at_index_def on_keys_def sha_open_ready)
qed

lemma verifyRoot_checked [simp]:
  "verifyRoot cp j i key c (checked s j f A b) = verifyRoot cp j i key c b"
  by (simp add: verifyRoot_def checked_def)

text \<open>Everything the check of one column needs.\<close>

definition column_ok :: "cryptopp \<Rightarrow> seller \<Rightarrow> buyer \<Rightarrow> nat \<Rightarrow> (nat \<Rightarrow> nat) \<Rightarrow> nat \<Rightarrow> bool" where
  "column_ok cp s b j f i \<longleftrightarrow>
     j < length (se_single_sellers s) \<and> j < length (bu_single_buyers b) \<and>
     i < length (sl_keys_commits (se_single_sellers s ! j)) \<and> i < length (sb_keys_commits (bu_single_buyers b ! j)) \<and>
     sha_ready cp (sl_keys_commits (se_single_sellers s ! j) ! i) (sb_keys_commits (bu_single_buyers b ! j) ! i) \<and>
     (f i = 1 \<and> sha_ready cp (se_d1 s j i) (bu_d1 b j i) \<and>
        verifyRoot cp j i (pair_key s j i) (snd_m (se_d1 s j i)) b = Inr () \<or>
      f i = 2 \<and> sha_ready cp (se_d2 s j i) (bu_d2 b j i) \<and>
        verifyRoot cp j i (pair_key s j i) (snd_m (se_d2 s j i)) b = Inr ())"

lemma check_root_step:
  assumes ok: "column_ok cp s b j f i" and new: "i \<notin> A"
    and w: "w_seller w = s" "w_buyer w = checked s j f A b"
  shows "check_root cp j i (f i) w = (Inr (), w\<lparr>w_buyer := checked s j f (insert i A) b\<rparr>)"
proof -
  let ?bs = "bu_single_buyers b"
  have j: "j < length (se_single_sellers s)" "j < length ?bs"
    and i: "i < length (sl_keys_commits (se_single_sellers s ! j))" "i < length (sb_keys_commits (?bs ! j))"
    and ready: "sha_ready cp (sl_keys_commits (se_single_sellers s ! j) ! i) (sb_keys_commits (?bs ! j) ! i)"
    using ok by (simp_all add: column_ok_def)
  have bs: "bu_single_buyers (w_buyer w) = open_keys s j A ?bs" by (simp add: w checked_def)
  have kc: "sb_keys_commits (open_keys s j A ?bs ! j) ! i = sb_keys_commits (?bs ! j) ! i"
    "length (sb_keys_commits (open_keys s j A ?bs ! j)) = length (sb_keys_commits (?bs ! j))"
    using i new by (simp_all add: open_keys_parts(2) [OF j(2)])
  let ?w1 = "w\<lparr>w_buyer := (checked s j f A b)\<lparr>bu_single_buyers := open_keys s j (insert i A) ?bs\<rparr>\<rparr>"
  have 1: "on_key j i (sha_open cp) w = (Inr (), ?w1)"
    using on_key_opens [of j w i cp] j i ready kc
    by (simp add: w bs open_keys_parts(1) [OF j(2)] open_keys_insert [OF j(2) i(2) new] checked_def [of s j f A])
  have key: "rcv_m (sb_keys_commits (open_keys s j (insert i A) ?bs ! j) ! i) = pair_key s j i"
    using i by (simp add: open_keys_parts(2) [OF j(2)] pair_key_def)
  have len: "length (sb_keys_commits (open_keys s j (insert i A) ?bs ! j)) = length (sb_keys_commits (?bs ! j))"
    by (simp add: open_keys_parts(2) [OF j(2)])
  have row: "{k. (k = i \<or> k \<in> A) \<and> f k = c} = (if f i = c then insert i {k \<in> A. f k = c} else {k \<in> A. f k = c})" for c
    by auto
  show ?thesis
  proof (cases "f i = 1")
    case True
    then have c: "sha_ready cp (se_d1 s j i) (bu_d1 b j i)"
      "verifyRoot cp j i (pair_key s j i) (snd_m (se_d1 s j i)) b = Inr ()"
      using ok by (auto simp: column_ok_def)
    have e: "bu_d1 (w_buyer ?w1) j i = bu_d1 b j i" using new by (simp add: checked_def open_row1_def)
    show ?thesis
      using 1 c True w j i key len e
      by (simp add: check_root_def seq_def and_then_def at_vector_def open_keys_parts(1) on_d1_def sha_open_ready
          checked_def open_row1_def open_row2_def row verifyRoot_def)
  next
    case False
    then have f: "f i = 2" and c: "sha_ready cp (se_d2 s j i) (bu_d2 b j i)"
      "verifyRoot cp j i (pair_key s j i) (snd_m (se_d2 s j i)) b = Inr ()"
      using ok by (auto simp: column_ok_def)
    have e: "bu_d2 (w_buyer ?w1) j i = bu_d2 b j i" using new by (simp add: checked_def open_row2_def)
    show ?thesis
      using 1 c f w j i key len e
      by (simp add: check_root_def seq_def and_then_def at_vector_def open_keys_parts(1) on_d2_def sha_open_ready
          checked_def open_row1_def open_row2_def row verifyRoot_def)
  qed
qed

lemma check_roots_run:
  assumes "distinct inds" "\<And>i. i \<in> set inds \<Longrightarrow> column_ok cp (w_seller w) (w_buyer w) j f i"
  shows "for_each inds (\<lambda>i. check_root cp j i (f i)) w =
    (Inr (), w\<lparr>w_buyer := checked (w_seller w) j f (set inds) (w_buyer w)\<rparr>)"
  using assms
proof (induction inds rule: rev_induct)
  case Nil
  then show ?case by simp
next
  case (snoc i inds)
  let ?w1 = "w\<lparr>w_buyer := checked (w_seller w) j f (set inds) (w_buyer w)\<rparr>"
  have "for_each inds (\<lambda>i. check_root cp j i (f i)) w = (Inr (), ?w1)" using snoc by simp
  moreover have "check_root cp j i (f i) ?w1 =
      (Inr (), ?w1\<lparr>w_buyer := checked (w_seller w) j f (insert i (set inds)) (w_buyer w)\<rparr>)"
    by (rule check_root_step) (use snoc.prems in auto)
  ultimately show ?case by (simp add: for_each_append)
qed

text \<open>The columns outside the subset are opened in both rows.\<close>

definition rest_opened :: "seller \<Rightarrow> nat \<Rightarrow> nat set \<Rightarrow> buyer \<Rightarrow> buyer" where
  "rest_opened s j B b = b\<lparr>bu_d1 := open_row1 s j B b, bu_d2 := open_row2 s j B b\<rparr>"

lemma open_both_run:
  assumes "\<And>i. i < k \<Longrightarrow> i \<notin> set inds \<Longrightarrow> sha_ready cp (se_d1 (w_seller w) j i) (bu_d1 (w_buyer w) j i) \<and>
    sha_ready cp (se_d2 (w_seller w) j i) (bu_d2 (w_buyer w) j i)"
  shows "for_each [0..<k] (open_both cp j inds) w =
    (Inr (), w\<lparr>w_buyer := rest_opened (w_seller w) j ({..<k} - set inds) (w_buyer w)\<rparr>)"
  using assms
proof (induction k)
  case 0
  then show ?case by (simp add: rest_opened_def open_row1_def open_row2_def)
next
  case (Suc k)
  have "{..<Suc k} - set inds = (if k \<in> set inds then {..<k} - set inds else insert k ({..<k} - set inds))"
    by (auto simp: less_Suc_eq)
  then show ?case using Suc
    by (simp add: for_each_append open_both_def rest_opened_def open_row1_def open_row2_def seq_def and_then_def
        on_d1_def on_d2_def sha_open_ready)
qed

section \<open>The round\<close>

text \<open>
  What the buyer draws in one round: numbers in the lower half whose squares are units, and a shuffle
  that permutes the indices.
\<close>

definition round_draws :: "cryptopp \<Rightarrow> params \<Rightarrow> sell_draw \<Rightarrow> int \<Rightarrow> int \<Rightarrow> nat \<Rightarrow> bool" where
  "round_draws cp P dw p q j \<longleftrightarrow>
     (\<forall>i<par_L P. 0 < dw_x dw j i \<and> dw_x dw j i \<le> p * q div 2 \<and>
        root_setting cp p q (dw_x dw j i * dw_x dw j i mod (p * q))) \<and>
     distinct (dw_shuffle dw j [0..<par_L P]) \<and> set (dw_shuffle dw j [0..<par_L P]) = {..<par_L P}"

lemma which_root_run:
  assumes n: "se_n s = n" "0 \<le> x" "x \<le> n div 2" "x * x mod n = se_y s j i"
    and r: "x = se_r1 s j i \<or> x = se_r2 s j i"
  shows "which_root s j i x = Inr (if x = se_r2 s j i then 2 else 1)"
  using assms by (auto simp: which_root_def Let_def)

text \<open>The two smallest roots the seller finds for a square, one of which the buyer has drawn.\<close>

lemma seller_roots:
  assumes st: "root_setting cp p q (x * x mod (p * q))" and x: "0 < x" "x \<le> p * q div 2"
  shows "\<exists>rs. all_square_roots cp (SquareRoot cp p q) (x * x mod (p * q)) = Inr rs \<and>
    half_roots (p * q) (rs ! 0) (rs ! 1) \<and> (x = rs ! 0 \<or> x = rs ! 1)"
proof -
  let ?n = "p * q" and ?a = "x * x mod (p * q)"
  obtain rs where rs: "all_square_roots cp (SquareRoot cp p q) ?a = Inr rs" "set rs = roots_modulo ?n ?a"
    using all_square_roots_four [OF st] by auto
  obtain r u where h: "rs = [r, u, ?n - u, ?n - r]" "0 < r" "r < u" "u \<le> ?n div 2"
    "r \<in> roots_modulo ?n ?a" "u \<in> roots_modulo ?n ?a"
    using all_square_roots_halves [OF st rs(1)] by blast
  have n: "0 < ?n" "odd ?n" using root_setting_primes [OF st] st by (simp_all add: root_setting_def)
  then have d: "?n = 2 * (?n div 2) + 1" by simp
  have "x \<in> roots_modulo ?n ?a" using x n d by (simp add: roots_modulo_def)
  then have "x \<in> {r, u, ?n - u, ?n - r}" using rs(2) h(1) by simp
  moreover have "x \<noteq> ?n - u" "x \<noteq> ?n - r" using x h d by linarith+
  ultimately have "x = r \<or> x = u" by simp
  moreover have "half_roots ?n r u" using h by (auto simp: half_roots_def roots_modulo_def)
  ultimately show ?thesis using rs(1) h(1) by simp
qed

text \<open>
  What a round between honest parties leaves. \<open>S\<close> is the subset the buyer checked. Outside of it the
  buyer holds the encryptions of two roots that split the modulus; inside it, at most one of the two
  ciphertexts of a column was revealed.
\<close>

definition round_left :: "cryptopp \<Rightarrow> params \<Rightarrow> int \<Rightarrow> nat \<Rightarrow> nat set \<Rightarrow> buyer \<Rightarrow> seller \<Rightarrow> buyer \<Rightarrow> bool" where
  "round_left cp P n j S b s b' \<longleftrightarrow> S \<subseteq> {..<par_L P} \<and> card S = par_L P div 2 \<and>
     (\<forall>i<par_L P. i \<notin> S \<longrightarrow> (\<exists>u v. half_roots n u v \<and>
        rcv_m (bu_d1 b' j i) = enc_key cp (pair_key s j i) (to_bytes cp u) \<and>
        rcv_m (bu_d2 b' j i) = enc_key cp (pair_key s j i) (to_bytes cp v))) \<and>
     (\<forall>i\<in>S. rcv_m (bu_d1 b' j i) = rcv_m (bu_d1 b j i) \<or> rcv_m (bu_d2 b' j i) = rcv_m (bu_d2 b j i)) \<and>
     (\<forall>k i. k \<noteq> j \<longrightarrow> bu_d1 b' k i = bu_d1 b k i \<and> bu_d2 b' k i = bu_d2 b k i)"

text \<open>What the rounds leave alone in the two parties.\<close>

definition seller_terms where
  "seller_terms s = (se_p s, se_q s, se_n s, se_price s, se_cheat s, se_square_root s, se_address s, se_T1 s,
     se_T1_output_script s, se_original_T1_output_script s, se_T2 s, se_single_sellers s)"

definition buyer_terms where
  "buyer_terms b = (bu_n b, bu_seller_address b, bu_T1 b, bu_T1_output_script b, bu_original_T1_output_script b,
     bu_T2 b, bu_T2_hash b, bu_price b, bu_r b, bu_signatures b, bu_p b, bu_q b)"

text \<open>What no step of a round changes.\<close>

definition round_frame :: "nat \<Rightarrow> world \<Rightarrow> world \<Rightarrow> bool" where
  "round_frame j w w' \<longleftrightarrow> w_calls w' = w_calls w \<and>
     (let s = w_seller w; s' = w_seller w'; b = w_buyer w; b' = w_buyer w' in
        seller_terms s' = seller_terms s \<and>
        buyer_terms b' = buyer_terms b \<and>
        length (bu_single_buyers b') = length (bu_single_buyers b) \<and>
        (\<forall>k. sb_share (bu_single_buyers b' ! k) = sb_share (bu_single_buyers b ! k) \<and>
           sb_receiver (bu_single_buyers b' ! k) = sb_receiver (bu_single_buyers b ! k) \<and>
           (k \<noteq> j \<longrightarrow> bu_single_buyers b' ! k = bu_single_buyers b ! k)))"

text \<open>What a kept execution must still offer when its round begins.\<close>

definition keys_ready :: "cryptopp \<Rightarrow> params \<Rightarrow> nat \<Rightarrow> world \<Rightarrow> bool" where
  "keys_ready cp P j w \<longleftrightarrow> (let as = se_single_sellers (w_seller w); bs = bu_single_buyers (w_buyer w) in
     j < length as \<and> j < length bs \<and>
     length (sl_keys_commits (as ! j)) = par_L P \<and> length (sb_keys_commits (bs ! j)) = par_L P \<and>
     (\<forall>i<par_L P. sha_ready cp (sl_keys_commits (as ! j) ! i) (sb_keys_commits (bs ! j) ! i) \<and>
        length (snd_m (sl_keys_commits (as ! j) ! i)) = AES_LENGTH))"

lemma dec_vector_enc:
  assumes "cipher_laws cp" "length key = AES_LENGTH"
  shows "dec_vector cp key (enc_key cp key m) = Inr m" "dec_array cp key (enc_key cp key m) = Inr m"
  using assms by (simp_all add: dec_vector_def dec_array_def dec_key_def enc_key_def AES_LENGTH_def lib_laws)

text \<open>
  Between the two halves: every column holds commitments to the encryptions of two roots that split
  the modulus, one of which the buyer knows, and nothing was revealed.
\<close>

definition roots_committed :: "cryptopp \<Rightarrow> params \<Rightarrow> int \<Rightarrow> nat \<Rightarrow> seller \<Rightarrow> buyer \<Rightarrow> nat \<Rightarrow> bool" where
  "roots_committed cp P n j s b i \<longleftrightarrow>
     half_roots n (se_r1 s j i) (se_r2 s j i) \<and> (bu_x b j i = se_r1 s j i \<or> bu_x b j i = se_r2 s j i) \<and>
     bu_x b j i * bu_x b j i mod n = se_y s j i \<and>
     sha_ready cp (se_d1 s j i) (bu_d1 b j i) \<and> sha_ready cp (se_d2 s j i) (bu_d2 b j i) \<and>
     snd_m (se_d1 s j i) = enc_key cp (pair_key s j i) (to_bytes cp (se_r1 s j i)) \<and>
     snd_m (se_d2 s j i) = enc_key cp (pair_key s j i) (to_bytes cp (se_r2 s j i))"

text \<open>What the first half changes.\<close>

definition commit_frame :: "nat \<Rightarrow> world \<Rightarrow> world \<Rightarrow> bool" where
  "commit_frame j w w' \<longleftrightarrow> w_calls w' = w_calls w \<and>
     (let s = w_seller w; s' = w_seller w'; b = w_buyer w; b' = w_buyer w' in
        seller_terms s' = seller_terms s \<and>
        buyer_terms b' = buyer_terms b \<and> bu_single_buyers b' = bu_single_buyers b \<and>
        (\<forall>k i. rcv_m (bu_d1 b' k i) = rcv_m (bu_d1 b k i) \<and> rcv_m (bu_d2 b' k i) = rcv_m (bu_d2 b k i) \<and>
           (k \<noteq> j \<longrightarrow> bu_d1 b' k i = bu_d1 b k i \<and> bu_d2 b' k i = bu_d2 b k i)))"

lemma commit_phase_run:
  assumes draws: "round_draws (lib E) P dw p q j"
    and sr: "se_square_root (w_seller w) = SquareRoot (lib E) p q" and n: "bu_n (w_buyer w) = p * q"
    and keys: "keys_ready (lib E) P j w"
  shows "\<exists>w'. commit_phase E P dw j w = (Inr (), w') \<and> commit_frame j w w' \<and>
    (\<forall>i<par_L P. roots_committed (lib E) P (p * q) j (w_seller w') (w_buyer w') i)"
proof -
  let ?cp = "lib E" and ?L = "par_L P" and ?n = "p * q" and ?x = "dw_x dw j"
  let ?s = "w_seller w" and ?b = "w_buyer w"
  let ?key = "pair_key ?s j"
  have j: "j < length (se_single_sellers ?s)"
    and len: "length (sl_keys_commits (se_single_sellers ?s ! j)) = ?L"
    and kl: "\<And>i. i < ?L \<Longrightarrow> length (?key i) = AES_LENGTH"
    using keys by (simp_all add: keys_ready_def Let_def pair_key_def)
  have "\<forall>i. \<exists>rs. i < ?L \<longrightarrow> all_square_roots ?cp (SquareRoot ?cp p q) (?x i * ?x i mod ?n) = Inr rs \<and>
      half_roots ?n (rs ! 0) (rs ! 1) \<and> (?x i = rs ! 0 \<or> ?x i = rs ! 1)"
    using seller_roots draws by (simp add: round_draws_def)
  then obtain rs where rs: "\<And>i. i < ?L \<Longrightarrow> all_square_roots ?cp (SquareRoot ?cp p q) (?x i * ?x i mod ?n) = Inr (rs i)"
    and half: "\<And>i. i < ?L \<Longrightarrow> half_roots ?n (rs i ! 0) (rs i ! 1)"
    and mine: "\<And>i. i < ?L \<Longrightarrow> ?x i = rs i ! 0 \<or> ?x i = rs i ! 1"
    by metis
  define u where "u = root1 (dw_bits dw j) rs"
  define v where "v = root2 (dw_bits dw j) rs"
  have uv: "half_roots ?n (u i) (v i)" "?x i = u i \<or> ?x i = v i" if "i < ?L" for i
    using half [OF that] mine [OF that] by (auto simp: u_def v_def root1_def root2_def half_roots_def)
  define b1 where "b1 = ?b\<lparr>bu_x := fill j {..<?L} ?x (bu_x ?b),
    bu_y := fill j {..<?L} (\<lambda>i. ?x i * ?x i mod ?n) (bu_y ?b)\<rparr>"
  have 1: "genSquares ?L ?x j ?b = b1" by (simp add: genSquares_eq b1_def n)
  define s1 where "s1 = ?s\<lparr>se_y := (se_y ?s)(j := bu_y b1 j)\<rparr>"
  define s2 where "s2 = s1\<lparr>se_r1 := fill j {..<?L} u (se_r1 s1), se_r2 := fill j {..<?L} v (se_r2 s1)\<rparr>"
  have 2: "findRoots ?cp ?L (dw_bits dw j) j s1 = (Inr (), s2)"
    unfolding s2_def u_def v_def by (rule findRoots_run) (simp add: s1_def b1_def sr rs)
  define s3 where "s3 = s2\<lparr>
    se_c1 := fill j {..<?L} (\<lambda>i. enc_key ?cp (pair_key s2 j i) (to_bytes ?cp (se_r1 s2 j i))) (se_c1 s2),
    se_c2 := fill j {..<?L} (\<lambda>i. enc_key ?cp (pair_key s2 j i) (to_bytes ?cp (se_r2 s2 j i))) (se_c2 s2)\<rparr>"
  have k2: "pair_key s2 j i = ?key i" "se_single_sellers s2 = se_single_sellers ?s" for i
    by (simp_all add: pair_key_def s2_def s1_def)
  have 3: "encryptRoots ?cp ?L j s2 = (Inr (), s3)"
    unfolding s3_def by (rule encryptRoots_run) (use j len kl k2 in simp_all)
  define s4 where "s4 = setupCommit ?L j s3"
  define s5 where "s5 = s4\<lparr>
    se_d1 := fill j {..<?L} (\<lambda>i. sha_sent ?cp (dw_seed1 dw j i) (se_d1 s4 j i)) (se_d1 s4),
    se_d2 := fill j {..<?L} (\<lambda>i. sha_sent ?cp (dw_seed2 dw j i) (se_d2 s4 j i)) (se_d2 s4)\<rparr>"
  define b5 where "b5 = b1\<lparr>
    bu_d1 := fill j {..<?L} (\<lambda>i. sha_received ?cp (dw_seed1 dw j i) (se_d1 s4 j i) (bu_d1 b1 j i)) (bu_d1 b1),
    bu_d2 := fill j {..<?L} (\<lambda>i. sha_received ?cp (dw_seed2 dw j i) (se_d2 s4 j i) (bu_d2 b1 j i)) (bu_d2 b1)\<rparr>"
  have 5: "for_each [0..<?L] (commit_roots ?cp dw j) (w\<lparr>w_buyer := b1, w_seller := s4\<rparr>)
      = (Inr (), w\<lparr>w_buyer := b5, w_seller := s5\<rparr>)"
    by (simp add: commit_roots_run s5_def b5_def)
  have a1: "acceptSquares j (getSquares j b1) ?s = s1" by (simp add: acceptSquares_def getSquares_def s1_def)
  have run: "commit_phase E P dw j w = (Inr (), w\<lparr>w_buyer := b5, w_seller := s5\<rparr>)"
    by (simp add: commit_phase_def Let_def seq_def and_then_def on_buyer_def on_seller_def 1 a1 2 3 5 flip: s4_def)
  have "commit_frame j w (w\<lparr>w_buyer := b5, w_seller := s5\<rparr>)"
    by (simp add: commit_frame_def seller_terms_def buyer_terms_def s5_def b5_def s4_def setupCommit_eq s3_def s2_def s1_def b1_def fill_entry)
  moreover have "roots_committed ?cp P ?n j s5 b5 i" if i: "i < ?L" for i
  proof -
    have k5: "pair_key s5 j i = pair_key s2 j i" for i
      by (simp add: pair_key_def s5_def s4_def setupCommit_eq s3_def)
    have r2: "se_r1 s2 j i = u i" "se_r2 s2 j i = v i" using i by (simp_all add: s2_def)
    have r5: "se_r1 s5 j i = se_r1 s2 j i" "se_r2 s5 j i = se_r2 s2 j i" "se_y s5 j i = se_y s1 j i"
      by (simp_all add: s5_def s4_def setupCommit_eq s3_def s2_def)
    have y: "se_y s1 j i = ?x i * ?x i mod ?n" using i by (simp add: s1_def b1_def)
    have c3: "se_c1 s3 j i = enc_key ?cp (pair_key s2 j i) (to_bytes ?cp (se_r1 s2 j i))"
      "se_c2 s3 j i = enc_key ?cp (pair_key s2 j i) (to_bytes ?cp (se_r2 s2 j i))"
      using i by (simp_all add: s3_def)
    have d4: "snd_m (se_d1 s4 j i) = se_c1 s3 j i" "snd_m (se_d2 s4 j i) = se_c2 s3 j i"
      using i by (simp_all add: s4_def setupCommit_eq)
    have x5: "bu_x b5 j i = ?x i" using i by (simp add: b5_def b1_def)
    have d5: "sha_ready ?cp (se_d1 s5 j i) (bu_d1 b5 j i)" "sha_ready ?cp (se_d2 s5 j i) (bu_d2 b5 j i)"
      "snd_m (se_d1 s5 j i) = snd_m (se_d1 s4 j i)" "snd_m (se_d2 s5 j i) = snd_m (se_d2 s4 j i)"
      using i by (simp_all add: s5_def b5_def sha_sent_ready)
    show ?thesis using uv [OF i] by (simp add: roots_committed_def d5 d4 c3 k5 r5 y x5 r2)
  qed
  ultimately show ?thesis using run by (intro exI [of _ "w\<lparr>w_buyer := b5, w_seller := s5\<rparr>"]) simp
qed

text \<open>What the second half changes.\<close>

definition check_frame :: "nat \<Rightarrow> world \<Rightarrow> world \<Rightarrow> bool" where
  "check_frame j w w' \<longleftrightarrow> w_calls w' = w_calls w \<and> w_seller w' = w_seller w \<and>
     (let b = w_buyer w; b' = w_buyer w' in
        buyer_terms b' = buyer_terms b \<and>
        length (bu_single_buyers b') = length (bu_single_buyers b) \<and>
        (\<forall>k. sb_share (bu_single_buyers b' ! k) = sb_share (bu_single_buyers b ! k) \<and>
           sb_receiver (bu_single_buyers b' ! k) = sb_receiver (bu_single_buyers b ! k) \<and>
           (k \<noteq> j \<longrightarrow> bu_single_buyers b' ! k = bu_single_buyers b ! k)))"

lemma column_ok_committed:
  assumes cipher: "cipher_laws cp" and enc: "encoding_laws cp" and keys: "keys_ready cp P j w" and i: "i < par_L P"
    and com: "roots_committed cp P n j (w_seller w) (w_buyer w) i"
  shows "column_ok cp (w_seller w) (w_buyer w) j (\<lambda>i. if bu_x (w_buyer w) j i = se_r2 (w_seller w) j i then 2 else 1) i"
proof -
  let ?s = "w_seller w" and ?b = "w_buyer w"
  have kl: "length (pair_key ?s j i) = AES_LENGTH" using keys i by (simp add: keys_ready_def Let_def pair_key_def)
  have pos: "0 \<le> se_r1 ?s j i" "0 \<le> se_r2 ?s j i" using com by (simp_all add: roots_committed_def half_roots_def)
  have v: "verifyRoot cp j i (pair_key ?s j i) (enc_key cp (pair_key ?s j i) (to_bytes cp r)) ?b = Inr ()"
    if "bu_x ?b j i = r" "0 \<le> r" for r
    using that dec_vector_enc(1) [OF cipher kl] enc by (simp add: verifyRoot_def decode_to_bytes)
  show ?thesis
    using com keys i v [of "se_r1 ?s j i"] v [of "se_r2 ?s j i"] pos
    by (auto simp: column_ok_def roots_committed_def keys_ready_def Let_def)
qed

lemma which_root_committed:
  assumes "roots_committed cp P n j s b i" "se_n s = n"
  shows "which_root s j i (bu_x b j i) = Inr (if bu_x b j i = se_r2 s j i then 2 else 1)"
  using assms by (auto simp: roots_committed_def half_roots_def which_root_def Let_def)

lemma check_phase_run:
  assumes cipher: "cipher_laws (lib E)" and enc: "encoding_laws (lib E)"
    and sh: "distinct (dw_shuffle dw j [0..<par_L P])" "set (dw_shuffle dw j [0..<par_L P]) = {..<par_L P}"
    and n: "se_n (w_seller w) = n" and keys: "keys_ready (lib E) P j w"
    and com: "\<And>i. i < par_L P \<Longrightarrow> roots_committed (lib E) P n j (w_seller w) (w_buyer w) i"
  shows "\<exists>w' S. check_phase E P dw j w = (Inr (), w') \<and> check_frame j w w' \<and>
    round_left (lib E) P n j S (w_buyer w) (w_seller w) (w_buyer w')"
proof -
  let ?cp = "lib E" and ?L = "par_L P" and ?s = "w_seller w" and ?b = "w_buyer w"
  define f where "f i = (if bu_x ?b j i = se_r2 ?s j i then 2 else 1 :: nat)" for i
  define inds where "inds = take (?L div 2) (dw_shuffle dw j [0..<?L])"
  have "length (dw_shuffle dw j [0..<?L]) = ?L" using sh by (metis card_lessThan distinct_card)
  then have inds: "distinct inds" "length inds = ?L div 2"
    using sh(1) by (auto simp: inds_def distinct_take min_def)
  have sub: "set inds \<subseteq> {..<?L}" using sh(2) set_take_subset unfolding inds_def by fast
  define b6 where "b6 = ?b\<lparr>bu_indices := (bu_indices ?b)(j := inds)\<rparr>"
  have 6: "pickSubset (dw_shuffle dw j) ?L j ?b = b6" by (simp add: pickSubset_def b6_def inds_def Let_def)
  have vals: "getSubsetValues ?L j b6 = map (bu_x ?b j) inds"
    using inds(2) by (simp add: getSubsetValues_def list_eq_iff_nth_eq b6_def)
  have i6: "getSubsetIndices j b6 = inds" by (simp add: getSubsetIndices_def b6_def)
  have 7: "acceptSubset ?s j inds (map (bu_x ?b j) inds) = Inr (map f inds)"
    unfolding f_def by (rule acceptSubset_run, rule which_root_committed [OF com n]) (use sub in auto)
  have j: "j < length (bu_single_buyers ?b)" using keys by (simp add: keys_ready_def Let_def)
  have same: "column_ok ?cp ?s b6 j f i = column_ok ?cp ?s ?b j f i" for i
    by (simp add: column_ok_def b6_def verifyRoot_def)
  have col: "column_ok ?cp ?s b6 j f i" if "i \<in> set inds" for i
    unfolding same f_def by (rule column_ok_committed [OF cipher enc keys _ com]) (use that sub in auto)
  define b7 where "b7 = checked ?s j f (set inds) b6"
  have 8: "for_each inds (\<lambda>i. check_root ?cp j i (f i)) (w\<lparr>w_buyer := b6\<rparr>) = (Inr (), w\<lparr>w_buyer := b7\<rparr>)"
    using check_roots_run [OF inds(1), of ?cp "w\<lparr>w_buyer := b6\<rparr>" j f] col by (simp add: b7_def)
  define b8 where "b8 = rest_opened ?s j ({..<?L} - set inds) b7"
  have d7: "bu_d1 b7 j i = bu_d1 ?b j i" "bu_d2 b7 j i = bu_d2 ?b j i" if "i \<notin> set inds" for i
    using that by (simp_all add: b7_def checked_def open_row1_def open_row2_def b6_def)
  have 9: "for_each [0..<?L] (open_both ?cp j inds) (w\<lparr>w_buyer := b7\<rparr>) = (Inr (), w\<lparr>w_buyer := b8\<rparr>)"
    using open_both_run [of ?L inds ?cp "w\<lparr>w_buyer := b7\<rparr>" j] com d7 by (simp add: b8_def roots_committed_def)
  have loop: "for_each [0..<?L div 2] (\<lambda>i. check_root ?cp j (inds ! i) (map f inds ! i)) t =
      for_each inds (\<lambda>i. check_root ?cp j i (f i)) t" for t
  proof -
    have "for_each [0..<?L div 2] (\<lambda>i. check_root ?cp j (inds ! i) (map f inds ! i)) t =
        for_each [0..<?L div 2] (\<lambda>i. check_root ?cp j (inds ! i) (f (inds ! i))) t"
      by (rule for_each_cong) (use inds(2) in simp_all)
    then show ?thesis by (simp only: for_each_nth [OF inds(2), of "\<lambda>i. check_root ?cp j i (f i)"])
  qed
  have ok: "card (set inds) = ?L div 2" "\<not> (\<exists>ind\<in>set inds. ?L \<le> ind)"
    using inds sub by (auto simp: distinct_card)
  have run: "check_phase E P dw j w = (Inr (), w\<lparr>w_buyer := b8\<rparr>)"
    using ok by (simp add: check_phase_def Let_def seq_def and_then_def on_buyer_def 6 i6 vals 7 loop 8 9)
  have bs8: "bu_single_buyers b8 = open_keys ?s j (set inds) (bu_single_buyers ?b)"
    by (simp add: b8_def rest_opened_def b7_def checked_def b6_def)
  have frame: "check_frame j w (w\<lparr>w_buyer := b8\<rparr>)"
    unfolding check_frame_def Let_def using open_keys_parts(1,3-5) [OF j, where s = ?s and A = "set inds"]
    by (simp add: bs8) (simp add: buyer_terms_def b8_def rest_opened_def b7_def checked_def b6_def)
  have "rcv_m (bu_d1 b8 j i) = snd_m (se_d1 ?s j i)" "rcv_m (bu_d2 b8 j i) = snd_m (se_d2 ?s j i)"
    if "i < ?L" "i \<notin> set inds" for i
    using that by (simp_all add: b8_def rest_opened_def open_row1_def open_row2_def)
  moreover have "rcv_m (bu_d1 b8 j i) = rcv_m (bu_d1 ?b j i) \<or> rcv_m (bu_d2 b8 j i) = rcv_m (bu_d2 ?b j i)"
    if "i \<in> set inds" for i
    using that by (cases "f i = 1")
      (simp_all add: b8_def rest_opened_def b7_def checked_def open_row1_def open_row2_def b6_def)
  moreover have "bu_d1 b8 k i = bu_d1 ?b k i" "bu_d2 b8 k i = bu_d2 ?b k i" if "k \<noteq> j" for k i
    using that by (simp_all add: b8_def rest_opened_def b7_def checked_def open_row1_def open_row2_def b6_def)
  ultimately have "round_left ?cp P n j (set inds) ?b ?s b8"
    using com sub ok(1) unfolding round_left_def roots_committed_def by (metis (no_types, lifting))
  with run frame show ?thesis by (intro exI [of _ "w\<lparr>w_buyer := b8\<rparr>"] exI [of _ "set inds"]) simp
qed

lemma frames_compose:
  "commit_frame j w w1 \<Longrightarrow> check_frame j w1 w' \<Longrightarrow> round_frame j w w'"
  by (simp add: commit_frame_def check_frame_def round_frame_def Let_def)

lemma sell_round_run:
  assumes cipher: "cipher_laws (lib E)" and enc: "encoding_laws (lib E)"
    and draws: "round_draws (lib E) P dw p q j"
    and sr: "se_square_root (w_seller w) = SquareRoot (lib E) p q"
    and n: "se_n (w_seller w) = p * q" "bu_n (w_buyer w) = p * q"
    and keys: "keys_ready (lib E) P j w"
  shows "\<exists>w' S. sell_round E P dw j w = (Inr (), w') \<and> round_frame j w w' \<and>
    round_left (lib E) P (p * q) j S (w_buyer w) (w_seller w) (w_buyer w')"
proof -
  obtain w1 where 1: "commit_phase E P dw j w = (Inr (), w1)" and f1: "commit_frame j w w1"
    and com: "\<And>i. i < par_L P \<Longrightarrow> roots_committed (lib E) P (p * q) j (w_seller w1) (w_buyer w1) i"
    using commit_phase_run [OF draws sr n(2) keys] by blast
  have s1: "se_n (w_seller w1) = se_n (w_seller w)" "se_single_sellers (w_seller w1) = se_single_sellers (w_seller w)"
    and b1: "bu_single_buyers (w_buyer w1) = bu_single_buyers (w_buyer w)"
    using f1 by (simp_all add: commit_frame_def seller_terms_def Let_def)
  have k1: "keys_ready (lib E) P j w1" using keys by (simp add: keys_ready_def s1 b1)
  have sh: "distinct (dw_shuffle dw j [0..<par_L P])" "set (dw_shuffle dw j [0..<par_L P]) = {..<par_L P}"
    using draws by (simp_all add: round_draws_def)
  have "se_n (w_seller w1) = p * q" using s1(1) n(1) by simp
  from check_phase_run [OF cipher enc sh this k1 com]
  obtain w' S where 2: "check_phase E P dw j w1 = (Inr (), w')" and f2: "check_frame j w1 w'"
    and left: "round_left (lib E) P (p * q) j S (w_buyer w1) (w_seller w1) (w_buyer w')"
    by blast
  have "pair_key (w_seller w1) j i = pair_key (w_seller w) j i" for i by (simp add: pair_key_def s1)
  then have "round_left (lib E) P (p * q) j S (w_buyer w) (w_seller w) (w_buyer w')"
    using left f1 unfolding round_left_def commit_frame_def Let_def by simp
  moreover have "sell_round E P dw j w = (Inr (), w')" using 1 2 by (simp add: sell_round_def seq_def and_then_def)
  ultimately show ?thesis using frames_compose [OF f1 f2] by blast
qed

end
