(* ===== verification/Exchange.thy ===== *)
theory Exchange
  imports Honest_Round
begin

text \<open>
  The whole exchange of main/sell_information.cpp between honest parties: all rounds of the second
  cut-and-choose, the payments, and the factors the buyer gets once the seller's signatures are on
  the blockchain.
\<close>

section \<open>All rounds\<close>

text \<open>
  A row of the buyer after its round: outside of a subset of half the columns two encryptions of
  roots that split \<open>n\<close>, inside at most one of the two ciphertexts.
\<close>

definition row_sold :: "cryptopp \<Rightarrow> params \<Rightarrow> int \<Rightarrow> seller \<Rightarrow> buyer \<Rightarrow> nat \<Rightarrow> bool" where
  "row_sold cp P n s b j \<longleftrightarrow> (\<exists>S \<subseteq> {..<par_L P}. card S = par_L P div 2 \<and>
     (\<forall>i<par_L P. i \<notin> S \<longrightarrow> (\<exists>u v. half_roots n u v \<and>
        rcv_m (bu_d1 b j i) = enc_key cp (pair_key s j i) (to_bytes cp u) \<and>
        rcv_m (bu_d2 b j i) = enc_key cp (pair_key s j i) (to_bytes cp v))) \<and>
     (\<forall>i\<in>S. rcv_m (bu_d1 b j i) = [] \<or> rcv_m (bu_d2 b j i) = []))"

definition rounds_frame :: "world \<Rightarrow> world \<Rightarrow> bool" where
  "rounds_frame w w' \<longleftrightarrow> w_calls w' = w_calls w \<and>
     seller_terms (w_seller w') = seller_terms (w_seller w) \<and> buyer_terms (w_buyer w') = buyer_terms (w_buyer w) \<and>
     length (bu_single_buyers (w_buyer w')) = length (bu_single_buyers (w_buyer w)) \<and>
     (\<forall>k. sb_share (bu_single_buyers (w_buyer w') ! k) = sb_share (bu_single_buyers (w_buyer w) ! k) \<and>
        sb_receiver (bu_single_buyers (w_buyer w') ! k) = sb_receiver (bu_single_buyers (w_buyer w) ! k))"

lemma row_sold_left:
  assumes "round_left cp P n j S b s b'" and "\<And>i. i < par_L P \<Longrightarrow> rcv_m (bu_d1 b j i) = [] \<and> rcv_m (bu_d2 b j i) = []"
  shows "row_sold cp P n s b' j"
  using assms unfolding round_left_def row_sold_def by (intro exI [of _ S]) (auto simp: subset_iff)

lemma row_sold_other:
  assumes "row_sold cp P n s b j" "\<And>i. bu_d1 b' j i = bu_d1 b j i \<and> bu_d2 b' j i = bu_d2 b j i"
    and "se_single_sellers s' = se_single_sellers s"
  shows "row_sold cp P n s' b' j"
  using assms by (simp add: row_sold_def pair_key_def)

lemma rounds_run:
  assumes cipher: "cipher_laws (lib E)" and enc: "encoding_laws (lib E)"
    and draws: "\<And>j. j < par_R P \<Longrightarrow> round_draws (lib E) P dw p q j"
    and sr: "se_square_root (w_seller w) = SquareRoot (lib E) p q"
    and n: "se_n (w_seller w) = p * q" "bu_n (w_buyer w) = p * q"
    and keys: "\<And>j. j < par_R P \<Longrightarrow> keys_ready (lib E) P j w"
    and empty: "\<And>j i. rcv_m (bu_d1 (w_buyer w) j i) = [] \<and> rcv_m (bu_d2 (w_buyer w) j i) = []"
  shows "\<exists>w'. for_each [0..<par_R P] (sell_round E P dw) w = (Inr (), w') \<and> rounds_frame w w' \<and>
    (\<forall>j<par_R P. row_sold (lib E) P (p * q) (w_seller w') (w_buyer w') j)"
proof -
  define I where "I xs w' \<longleftrightarrow> rounds_frame w w' \<and>
    (\<forall>j. j \<notin> set xs \<longrightarrow> bu_single_buyers (w_buyer w') ! j = bu_single_buyers (w_buyer w) ! j \<and>
       (\<forall>i. bu_d1 (w_buyer w') j i = bu_d1 (w_buyer w) j i \<and> bu_d2 (w_buyer w') j i = bu_d2 (w_buyer w) j i)) \<and>
    (\<forall>j\<in>set xs. row_sold (lib E) P (p * q) (w_seller w') (w_buyer w') j)" for xs w'
  have "\<exists>w'. for_each [0..<par_R P] (sell_round E P dw) w = (Inr (), w') \<and> I [0..<par_R P] w'"
  proof (rule for_each_total)
    show "I [] w" by (simp add: I_def rounds_frame_def)
    fix xs j ys w1 assume e: "[0..<par_R P] = xs @ j # ys" and I: "I xs w1"
    have "j \<in> set [0..<par_R P]" unfolding e by simp
    then have j: "j < par_R P" by simp
    have new: "j \<notin> set xs" using distinct_upt [of 0 "par_R P"] e by simp
    have fr: "seller_terms (w_seller w1) = seller_terms (w_seller w)" "buyer_terms (w_buyer w1) = buyer_terms (w_buyer w)"
      "length (bu_single_buyers (w_buyer w1)) = length (bu_single_buyers (w_buyer w))"
      using I by (simp_all add: I_def rounds_frame_def)
    have old: "bu_single_buyers (w_buyer w1) ! j = bu_single_buyers (w_buyer w) ! j"
      "\<And>i. bu_d1 (w_buyer w1) j i = bu_d1 (w_buyer w) j i \<and> bu_d2 (w_buyer w1) j i = bu_d2 (w_buyer w) j i"
      using I new by (simp_all add: I_def)
    have "keys_ready (lib E) P j w1"
      using keys [OF j] fr old(1) by (simp add: keys_ready_def Let_def seller_terms_def)
    moreover have "se_square_root (w_seller w1) = SquareRoot (lib E) p q" "se_n (w_seller w1) = p * q"
      "bu_n (w_buyer w1) = p * q" using sr n fr by (simp_all add: seller_terms_def buyer_terms_def)
    ultimately obtain w2 S where run: "sell_round E P dw j w1 = (Inr (), w2)" and f2: "round_frame j w1 w2"
      and left: "round_left (lib E) P (p * q) j S (w_buyer w1) (w_seller w1) (w_buyer w2)"
      using sell_round_run [OF cipher enc draws [OF j]] by blast
    have ss: "se_single_sellers (w_seller w2) = se_single_sellers (w_seller w1)"
      using f2 by (simp add: round_frame_def Let_def seller_terms_def)
    have "row_sold (lib E) P (p * q) (w_seller w1) (w_buyer w2) j"
      by (rule row_sold_left [OF left]) (use old(2) empty in simp)
    then have "row_sold (lib E) P (p * q) (w_seller w2) (w_buyer w2) j"
      by (rule row_sold_other) (simp_all add: ss)
    moreover have "row_sold (lib E) P (p * q) (w_seller w2) (w_buyer w2) k" if "k \<in> set xs" for k
      by (rule row_sold_other [of _ _ _ "w_seller w1" "w_buyer w1"])
        (use I that new left ss in \<open>auto simp: I_def round_left_def\<close>)
    moreover have "rounds_frame w w2" using I f2 by (simp add: I_def rounds_frame_def round_frame_def Let_def)
    moreover have "bu_single_buyers (w_buyer w2) ! k = bu_single_buyers (w_buyer w) ! k \<and>
        (\<forall>i. bu_d1 (w_buyer w2) k i = bu_d1 (w_buyer w) k i \<and> bu_d2 (w_buyer w2) k i = bu_d2 (w_buyer w) k i)"
      if "k \<notin> set (xs @ [j])" for k
      using that I f2 left by (simp add: I_def round_frame_def round_left_def Let_def)
    ultimately have "I (xs @ [j]) w2" by (simp add: I_def)
    with run show "\<exists>w'. sell_round E P dw j w1 = (Inr (), w') \<and> I (xs @ [j]) w'" by blast
  qed
  then show ?thesis by (auto simp: I_def)
qed

section \<open>From the first phase to the payments\<close>

lemma kept_keys:
  assumes hash: "hash_laws cp" and kept: "sk_kept cp ec P a b" and i: "i < par_L P"
  shows "snd_m (sl_keys_commits a ! i) = genKeys cp (par_L P) (S_get_signature cp (sl_share a)) ! i"
    "length (snd_m (sl_keys_commits a ! i)) = AES_LENGTH"
    "sha_ready cp (sl_keys_commits a ! i) (sb_keys_commits b ! i)"
proof -
  have sig: "snd_m (sl_signature_commit a) = S_get_signature cp (sl_share a)" and r: "sk_ready cp ec P a b"
    using kept by (simp_all add: sk_kept_def)
  show key: "snd_m (sl_keys_commits a ! i) = genKeys cp (par_L P) (S_get_signature cp (sl_share a)) ! i"
    and "sha_ready cp (sl_keys_commits a ! i) (sb_keys_commits b ! i)"
    using r i sig by (simp_all add: sk_ready_def)
  show "length (snd_m (sl_keys_commits a ! i)) = AES_LENGTH"
    using hash i by (simp add: key genKeys_nth AES_LENGTH_def lib_laws)
qed

lemma kept_keys_ready:
  assumes "hash_laws cp" "j < length (se_single_sellers (w_seller w))" "j < length (bu_single_buyers (w_buyer w))"
    and "sk_kept cp ec P (se_single_sellers (w_seller w) ! j) (bu_single_buyers (w_buyer w) ! j)"
  shows "keys_ready cp P j w"
proof -
  have "sk_signed cp ec P (se_single_sellers (w_seller w) ! j) (bu_single_buyers (w_buyer w) ! j)"
    using assms(4) unfolding sk_kept_def sk_ready_def by blast
  then have "length (sl_keys_commits (se_single_sellers (w_seller w) ! j)) = par_L P"
    "length (sb_keys_commits (bu_single_buyers (w_buyer w) ! j)) = par_L P"
    unfolding sk_signed_def by blast+
  then show ?thesis
    using assms(2,3) kept_keys(2,3) [OF assms(1,4)] unfolding keys_ready_def Let_def by blast
qed

text \<open>The setting of an honest exchange of the factors of \<open>p * q\<close>.\<close>

definition honest_exchange :: "setting \<Rightarrow> params \<Rightarrow> sell_draw \<Rightarrow> int \<Rightarrow> int \<Rightarrow> string \<Rightarrow> world \<Rightarrow> bool" where
  "honest_exchange E P dw p q hash w \<longleftrightarrow>
     honest_draws E P dw (string2v hash) \<and> good_server (server E) hash \<and>
     cipher_laws (lib E) \<and> encoding_laws (lib E) \<and> hash_laws (lib E) \<and>
     (\<forall>j. mem_past E j \<notin> {0..<int (par_T P)}) \<and> 0 < par_R P \<and>
     (\<forall>j<par_R P. round_draws (lib E) P dw p q j) \<and>
     se_square_root (w_seller w) = SquareRoot (lib E) p q \<and> se_n (w_seller w) = p * q \<and> bu_n (w_buyer w) = p * q \<and>
     bu_single_buyers (w_buyer w) = [] \<and> se_single_sellers (w_seller w) = [] \<and>
     (\<forall>j i. rcv_m (bu_d1 (w_buyer w) j i) = [] \<and> rcv_m (bu_d2 (w_buyer w) j i) = [])"

text \<open>What the seller has signed and encrypted when the payments begin.\<close>

definition exchange_ready :: "cryptopp \<Rightarrow> params \<Rightarrow> int \<Rightarrow> world \<Rightarrow> bool" where
  "exchange_ready cp P n w \<longleftrightarrow> bu_n (w_buyer w) = n \<and> par_R P \<le> length (se_single_sellers (w_seller w)) \<and>
     (\<forall>j<par_R P. row_sold cp P n (w_seller w) (w_buyer w) j \<and>
        0 < S_r (sl_share (se_single_sellers (w_seller w) ! j)) \<and>
        0 < S_s (sl_share (se_single_sellers (w_seller w) ! j)) \<and>
        (\<forall>i<par_L P. pair_key (w_seller w) j i
           = genKeys cp (par_L P) (S_get_signature cp (sl_share (se_single_sellers (w_seller w) ! j))) ! i))"

text \<open>Every kept execution of the buyer holds a locked key.\<close>

definition refund_ready :: "setting \<Rightarrow> params \<Rightarrow> sell_draw \<Rightarrow> buyer \<Rightarrow> bool" where
  "refund_ready E P dw b \<longleftrightarrow> par_R P \<le> length (bu_single_buyers b) \<and>
     (\<forall>k<par_R P. \<exists>i<par_T P. key_sealed (lib E) (curve E) (draw_ds (dw_keys dw i)) (bu_single_buyers b ! k))"

lemma off_chain_run:
  assumes ok: "honest_exchange E P dw p q hash w" and parties: "setup_parties E P dw = Inr (as, bs)"
    and good: "good_indices (par_T P) (par_R P) (bu_r (w_buyer w))"
  shows "\<exists>w'. off_chain E P dw as bs w = (Inr (), w') \<and> exchange_ready (lib E) P (p * q) w' \<and>
    refund_ready E P dw (w_buyer w') \<and> se_cheat (w_seller w') = se_cheat (w_seller w)"
proof -
  have h: "honest_draws E P dw (string2v hash)" "good_server (server E) hash" "0 < par_R P"
    "\<And>j. mem_past E j \<notin> {0..<int (par_T P)}" "bu_single_buyers (w_buyer w) = []" "se_single_sellers (w_seller w) = []"
    and laws: "cipher_laws (lib E)" "encoding_laws (lib E)" "hash_laws (lib E)"
    and draws: "\<And>j. j < par_R P \<Longrightarrow> round_draws (lib E) P dw p q j"
    and sr: "se_square_root (w_seller w) = SquareRoot (lib E) p q" "se_n (w_seller w) = p * q" "bu_n (w_buyer w) = p * q"
    and empty: "\<And>j i. rcv_m (bu_d1 (w_buyer w) j i) = [] \<and> rcv_m (bu_d2 (w_buyer w) j i) = []"
    using ok by (simp_all add: honest_exchange_def)
  obtain w1 where 1: "first_phase E P dw as bs w = (Inr (), w1)"
    and len: "length (se_single_sellers (w_seller w1)) = par_R P" "length (bu_single_buyers (w_buyer w1)) = par_R P"
    and kept: "\<And>k. k < par_R P \<Longrightarrow> sk_kept (lib E) (curve E) P (se_single_sellers (w_seller w1) ! k)
      (bu_single_buyers (w_buyer w1) ! k)"
    and sealed: "\<And>k. k < par_R P \<Longrightarrow> \<exists>i<par_T P. key_sealed (lib E) (curve E) (draw_ds (dw_keys dw i))
      (bu_single_buyers (w_buyer w1) ! k)"
    and same: "se_n (w_seller w1) = se_n (w_seller w)" "se_square_root (w_seller w1) = se_square_root (w_seller w)"
      "bu_n (w_buyer w1) = bu_n (w_buyer w)" "bu_d1 (w_buyer w1) = bu_d1 (w_buyer w)"
      "bu_d2 (w_buyer w1) = bu_d2 (w_buyer w)" "se_cheat (w_seller w1) = se_cheat (w_seller w)"
    using first_phase_run [OF h(1,2) parties good h(3) h(4) h(5,6)] by blast
  have kr: "keys_ready (lib E) P j w1" if "j < par_R P" for j
    by (rule kept_keys_ready [OF laws(3) _ _ kept [OF that]]) (use len that in simp_all)
  have n1: "se_square_root (w_seller w1) = SquareRoot (lib E) p q" "se_n (w_seller w1) = p * q"
    "bu_n (w_buyer w1) = p * q" using sr same by simp_all
  have e1: "rcv_m (bu_d1 (w_buyer w1) j i) = [] \<and> rcv_m (bu_d2 (w_buyer w1) j i) = []" for j i
    using empty by (simp add: same)
  from rounds_run [OF laws(1,2) draws n1 kr e1]
  obtain w2 where 2: "for_each [0..<par_R P] (sell_round E P dw) w1 = (Inr (), w2)" and fr: "rounds_frame w1 w2"
    and sold: "\<And>j. j < par_R P \<Longrightarrow> row_sold (lib E) P (p * q) (w_seller w2) (w_buyer w2) j"
    by blast
  have s2: "se_single_sellers (w_seller w2) = se_single_sellers (w_seller w1)" "bu_n (w_buyer w2) = bu_n (w_buyer w1)"
    "se_cheat (w_seller w2) = se_cheat (w_seller w1)"
    using fr by (simp_all add: rounds_frame_def seller_terms_def buyer_terms_def)
  have "0 < S_r (sl_share (se_single_sellers (w_seller w1) ! j)) \<and>
      0 < S_s (sl_share (se_single_sellers (w_seller w1) ! j))" if "j < par_R P" for j
  proof -
    have "sk_signed (lib E) (curve E) P (se_single_sellers (w_seller w1) ! j) (bu_single_buyers (w_buyer w1) ! j)"
      using kept [OF that] unfolding sk_kept_def sk_ready_def by blast
    then show ?thesis unfolding sk_signed_def ss_ready_def using verify_signature_positive by blast
  qed
  then have "exchange_ready (lib E) P (p * q) w2"
    using sold kept_keys(1) [OF laws(3) kept] len(1) n1(3) by (simp add: exchange_ready_def s2 pair_key_def)
  moreover have "refund_ready E P dw (w_buyer w2)"
    using sealed fr len(2) by (simp add: refund_ready_def rounds_frame_def key_sealed_def)
  moreover have "off_chain E P dw as bs w = (Inr (), w2)" using 1 2 by (simp add: off_chain_def seq_def and_then_def)
  ultimately show ?thesis using s2(3) same(6) by auto
qed

text \<open>The payments with a server that agrees change nothing but the transaction the seller has seen.\<close>

lemma on_chain_run:
  assumes server: "good_server (server E) hash" and len: "par_R P \<le> length (se_single_sellers (w_seller w))"
  shows "\<exists>w'. on_chain E P w = (Inr (), w') \<and> w_seller w' = (w_seller w)\<lparr>se_T1 := bu_T1 (w_buyer w)\<rparr> \<and>
    w_buyer w' = w_buyer w \<and> (\<exists>cs. w_calls w' = w_calls w @ BroadcastTransaction (bu_T1 (w_buyer w)) # cs)"
proof -
  have yes: "rpc_bool (server E) log c = Inr True" if "\<not> is_redeem c" for log c
    using server that by (simp add: good_server_def)
  have mv: "map_vector f (se_single_sellers (w_seller w)) [0..<par_R P]
      = Inr (map (\<lambda>i. f (se_single_sellers (w_seller w) ! i)) [0..<par_R P])" for f :: "single_seller \<Rightarrow> string"
    by (rule map_vector_run [OF len]) simp
  show ?thesis
    by (simp add: on_chain_def make_payment_def accept_T1_def accept_payment_def seq_def and_then_def rpc_call_def
        on_seller_def seller_points_def mv yes)
qed

section \<open>The factors\<close>

text \<open>A server that finds the seller's transaction and the signatures in it.\<close>

definition publishes :: "cryptopp \<Rightarrow> params \<Rightarrow> rpc \<Rightarrow> seller \<Rightarrow> bool" where
  "publishes cp P env s \<longleftrightarrow>
     (\<forall>log addr k. rpc_bool env log (WaitForTransactionByOutput addr k) = Inr True) \<and>
     (\<forall>log addr k. \<exists>sigs. rpc_pairs env log (GetSignatures addr k) = Inr sigs \<and> par_R P \<le> length sigs \<and>
        (\<forall>j<par_R P. decode_bytes cp (string2v (fst (sigs ! j))) = S_r (sl_share (se_single_sellers s ! j)) \<and>
           decode_bytes cp (string2v (snd (sigs ! j))) = S_s (sl_share (se_single_sellers s ! j))))"

text \<open>The first \<open>k\<close> signatures replaced by those of the shares.\<close>

definition signed_as :: "cryptopp \<Rightarrow> (nat \<Rightarrow> share_s) \<Rightarrow> nat \<Rightarrow> (nat \<Rightarrow> byte list) \<Rightarrow> nat \<Rightarrow> byte list" where
  "signed_as cp sh k sg = (\<lambda>i. if i < k then S_get_signature cp (sh i) else sg i)"

lemma signed_as_simps [simp]:
  "signed_as cp sh 0 sg = sg" "(signed_as cp sh k sg)(k := S_get_signature cp (sh k)) = signed_as cp sh (Suc k) sg"
  by (auto simp: signed_as_def fun_eq_iff)

lemma read_signatures_run:
  assumes "k \<le> length sigs"
    and "\<And>j. j < k \<Longrightarrow> decode_bytes cp (string2v (fst (sigs ! j))) = S_r (sh j) \<and>
      decode_bytes cp (string2v (snd (sigs ! j))) = S_s (sh j)"
  shows "for_each [0..<k] (\<lambda>i. and_then (from_sum (read_signature cp sigs i)) (\<lambda>sig.
      on_buyer (\<lambda>b. b\<lparr>bu_signatures := (bu_signatures b)(i := sig)\<rparr>))) w
    = (Inr (), w\<lparr>w_buyer := (w_buyer w)\<lparr>bu_signatures := signed_as cp sh k (bu_signatures (w_buyer w))\<rparr>\<rparr>)"
  using assms
proof (induction k)
  case 0
  then show ?case by simp
next
  case (Suc k)
  have r: "read_signature cp sigs k = Inr (S_get_signature cp (sh k))"
    using Suc.prems(1) Suc.prems(2) [of k]
    by (auto simp: read_signature_def at_vector_def S_get_signature_def Let_def split: prod.splits)
  then show ?case using Suc
    by (simp add: for_each_append and_then_def on_buyer_def del: fun_upd_apply)
qed

lemma sold_factorise:
  assumes laws: "modular_laws cp" "cipher_laws cp" "encoding_laws cp" "hash_laws cp"
    and p: "prime_integer p" "prime_integer q" "p \<noteq> q"
    and ready: "exchange_ready cp P (p * q) w" and pos: "0 < par_R P" "0 < par_L P"
    and b: "b = (w_buyer w)\<lparr>bu_signatures := sg\<rparr>"
    and sg: "\<And>j. j < par_R P \<Longrightarrow> sg j = S_get_signature cp (sl_share (se_single_sellers (w_seller w) ! j))"
  shows "\<exists>b'. factorise cp P b = (Inr (), b') \<and> {bu_p b', bu_q b'} = {p, q}"
proof -
  let ?key = "pair_key (w_seller w)"
  let ?keys = "map (\<lambda>i. genKeys cp (par_L P) (bu_signatures b i)) [0..<par_R P]"
  have n: "bu_n b = p * q" using ready b by (simp add: exchange_ready_def)
  have key: "?keys ! j ! i = ?key j i" "length (?key j i) = AES_LENGTH" if "j < par_R P" "i < par_L P" for j i
  proof -
    have k: "?key j i = genKeys cp (par_L P) (S_get_signature cp (sl_share (se_single_sellers (w_seller w) ! j))) ! i"
      using ready that by (simp add: exchange_ready_def)
    show "?keys ! j ! i = ?key j i" using that sg [of j] by (simp add: k b)
    show "length (?key j i) = AES_LENGTH" using laws(4) that by (simp add: k genKeys_nth AES_LENGTH_def lib_laws)
  qed
  have sold: "row_sold cp P (p * q) (w_seller w) (w_buyer w) j" if "j < par_R P" for j
    using ready that by (simp add: exchange_ready_def)
  have out: "\<not> skipped b (j, i) \<and> holds_roots cp b ?keys (j, i)"
    if ji: "j < par_R P" "i < par_L P" and uv: "half_roots (p * q) u v"
      "rcv_m (bu_d1 (w_buyer w) j i) = enc_key cp (?key j i) (to_bytes cp u)"
      "rcv_m (bu_d2 (w_buyer w) j i) = enc_key cp (?key j i) (to_bytes cp v)" for j i u v
  proof
    show "\<not> skipped b (j, i)" using uv laws(2) by (simp add: skipped_def b enc_key_def lib_laws)
    have "0 \<le> u" "0 \<le> v" using uv(1) by (simp_all add: half_roots_def)
    then have "decode_bytes cp (to_bytes cp u) = u" "decode_bytes cp (to_bytes cp v) = v"
      using laws(3) by (simp_all add: decode_to_bytes)
    then show "holds_roots cp b ?keys (j, i)"
      using uv n dec_vector_enc(2) [OF laws(2) key(2) [OF ji]]
      unfolding holds_roots_def prod.case key(1) [OF ji] by (simp add: b)
  qed
  obtain S where S: "S \<subseteq> {..<par_L P}" "card S = par_L P div 2"
    and u: "\<And>i. i < par_L P \<Longrightarrow> i \<notin> S \<Longrightarrow> \<exists>u v. half_roots (p * q) u v \<and>
        rcv_m (bu_d1 (w_buyer w) 0 i) = enc_key cp (?key 0 i) (to_bytes cp u) \<and>
        rcv_m (bu_d2 (w_buyer w) 0 i) = enc_key cp (?key 0 i) (to_bytes cp v)"
    using sold [OF pos(1)] unfolding row_sold_def by blast
  have "card S < card {..<par_L P}" using S(2) pos(2) by simp
  then have "S \<noteq> {..<par_L P}" by auto
  then obtain ii where ii: "ii < par_L P" "ii \<notin> S" using S(1) by auto
  show ?thesis
  proof (rule factorise_finds [OF laws(1) p n _ pos(1) ii(1)])
    show "\<not> skipped b (0, ii)" using u [OF ii] out [OF pos(1) ii(1)] by blast
    fix j i assume ji: "j < par_R P" "i < par_L P"
    show "skipped b (j, i) \<or> holds_roots cp b ?keys (j, i)"
      using sold [OF ji(1)] out [OF ji] ji(2) unfolding row_sold_def by (auto simp: skipped_def b) blast
  qed
qed

lemma get_signature_sold:
  assumes laws: "modular_laws cp" "cipher_laws cp" "encoding_laws cp" "hash_laws cp"
    and p: "prime_integer p" "prime_integer q" "p \<noteq> q"
    and ready: "exchange_ready cp P (p * q) w" and pos: "0 < par_R P" "0 < par_L P"
    and env: "publishes cp P env (w_seller w)"
  shows "\<exists>w'. get_signature cp env P w = (Inr (), w') \<and> {bu_p (w_buyer w'), bu_q (w_buyer w')} = {p, q}"
proof -
  let ?c1 = "WaitForTransactionByOutput (bu_seller_address (w_buyer w)) 6"
  let ?c2 = "GetSignatures (bu_seller_address (w_buyer w)) (par_R P)"
  let ?sh = "\<lambda>j. sl_share (se_single_sellers (w_seller w) ! j)"
  have yes: "rpc_bool env (w_calls w) ?c1 = Inr True" using env by (simp add: publishes_def)
  obtain sigs where sigs: "rpc_pairs env (w_calls w @ [?c1]) ?c2 = Inr sigs" "par_R P \<le> length sigs"
    "\<And>j. j < par_R P \<Longrightarrow> decode_bytes cp (string2v (fst (sigs ! j))) = S_r (?sh j) \<and>
      decode_bytes cp (string2v (snd (sigs ! j))) = S_s (?sh j)"
    using env unfolding publishes_def by meson
  let ?w = "w\<lparr>w_calls := w_calls w @ [?c1, ?c2]\<rparr>"
  let ?b = "(w_buyer w)\<lparr>bu_signatures := signed_as cp ?sh (par_R P) (bu_signatures (w_buyer w))\<rparr>"
  have loop: "for_each [0..<par_R P] (\<lambda>i. and_then (from_sum (read_signature cp sigs i)) (\<lambda>sig.
      on_buyer (\<lambda>b. b\<lparr>bu_signatures := (bu_signatures b)(i := sig)\<rparr>))) ?w = (Inr (), ?w\<lparr>w_buyer := ?b\<rparr>)"
    using read_signatures_run [OF sigs(2), of cp ?sh ?w] sigs(3) by (simp del: fun_upd_apply)
  have sg: "signed_as cp ?sh (par_R P) (bu_signatures (w_buyer w)) j = S_get_signature cp (?sh j)" if "j < par_R P" for j
    using that by (simp add: signed_as_def)
  obtain b' where b': "factorise cp P ?b = (Inr (), b')" "{bu_p b', bu_q b'} = {p, q}"
    using sold_factorise [OF laws p ready pos refl sg] by blast
  have "get_signature cp env P w = (Inr (), ?w\<lparr>w_buyer := b'\<rparr>)"
    unfolding get_signature_def
    using yes sigs(1) loop b'(1)
    by (simp only: and_then_def seq_def rpc_call_def) simp
  then show ?thesis using b'(2) by simp
qed

lemma exchange_ready_cong:
  "w_buyer w' = w_buyer w \<Longrightarrow> se_single_sellers (w_seller w') = se_single_sellers (w_seller w) \<Longrightarrow>
     exchange_ready cp P n w' = exchange_ready cp P n w"
  by (simp add: exchange_ready_def row_sold_def pair_key_def)

lemma sell_exec_run:
  assumes ok: "honest_exchange E P dw p q hash w"
    and picks: "\<And>k. dw_picks dw k \<in> {0..int (par_T P) - 1}" "par_R P \<le> card (dw_picks dw ` {..<N})"
  shows "\<exists>w'. sell_exec E P dw w = Some (Inr (), w') \<and> exchange_ready (lib E) P (p * q) w' \<and>
    refund_ready E P dw (w_buyer w') \<and>
    (\<exists>cs t cs'. w_calls w' = w_calls w @ cs @ BroadcastTransaction t # cs')"
proof -
  have h: "honest_draws E P dw (string2v hash)" "good_server (server E) hash"
    using ok by (simp_all add: honest_exchange_def)
  obtain as bs where parties: "setup_parties E P dw = Inr (as, bs)"
    using setup_parties_fresh [OF h(1)] by blast
  obtain b where b: "pickR (dw_picks dw) (par_R P) (w_buyer w) = Some b" "good_indices (par_T P) (par_R P) (bu_r b)"
    using pickR_good [OF picks] by blast
  let ?w = "w\<lparr>w_buyer := b\<rparr>"
  obtain res where "b = (w_buyer w)\<lparr>bu_r := res\<rparr>" using b(1) by (auto simp: pickR_def)
  then have same: "bu_n b = bu_n (w_buyer w)" "bu_single_buyers b = bu_single_buyers (w_buyer w)"
    "bu_d1 b = bu_d1 (w_buyer w)" "bu_d2 b = bu_d2 (w_buyer w)"
    by simp_all
  have ok': "honest_exchange E P dw p q hash ?w" using ok by (simp add: honest_exchange_def same)
  have "good_indices (par_T P) (par_R P) (bu_r (w_buyer ?w))" using b(2) by simp
  from off_chain_run [OF ok' parties this]
  obtain w1 where off: "off_chain E P dw as bs ?w = (Inr (), w1)" and ready: "exchange_ready (lib E) P (p * q) w1"
    and refund: "refund_ready E P dw (w_buyer w1)"
    by blast
  have "par_R P \<le> length (se_single_sellers (w_seller w1))" using ready by (simp add: exchange_ready_def)
  from on_chain_run [OF h(2) this]
  obtain w2 cs' where on: "on_chain E P w1 = (Inr (), w2)" "w_seller w2 = (w_seller w1)\<lparr>se_T1 := bu_T1 (w_buyer w1)\<rparr>"
    "w_buyer w2 = w_buyer w1" "w_calls w2 = w_calls w1 @ BroadcastTransaction (bu_T1 (w_buyer w1)) # cs'"
    by blast
  obtain cs where cs: "w_calls w1 = w_calls w @ cs"
    using off_chain_quiet [of E P dw as bs] off unfolding quiet_def
    by (metis (no_types, lifting) snd_conv world.select_convs(3) world.surjective world.update_convs(2))
  have "sell_exec E P dw w = Some (Inr (), w2)"
    using parties b(1) off on(1) by (simp add: sell_exec_def seq_def and_then_def)
  moreover have "exchange_ready (lib E) P (p * q) w2"
    using ready exchange_ready_cong [of w2 w1] on(2,3) by simp
  moreover have "refund_ready E P dw (w_buyer w2)" using refund on(3) by simp
  moreover have "w_calls w2 = w_calls w @ cs @ BroadcastTransaction (bu_T1 (w_buyer w1)) # cs'"
    using on(4) cs by simp
  ultimately show ?thesis by blast
qed

text \<open>Signatures can always be published: the server returns their encodings.\<close>

definition publisher :: "cryptopp \<Rightarrow> params \<Rightarrow> seller \<Rightarrow> rpc" where
  "publisher cp P s = ref_server\<lparr>rpc_pairs := (\<lambda>log c. Inr (map (\<lambda>j. let S = sl_share (se_single_sellers s ! j)
     in (v2string (to_bytes cp (S_r S)), v2string (to_bytes cp (S_s S)))) [0..<par_R P]))\<rparr>"

lemma publisher_publishes:
  assumes "exchange_ready cp P n w" "encoding_laws cp"
  shows "publishes cp P (publisher cp P (w_seller w)) (w_seller w)"
proof -
  have "decode_bytes cp (to_bytes cp (S_r (sl_share (se_single_sellers (w_seller w) ! j))))
        = S_r (sl_share (se_single_sellers (w_seller w) ! j))"
    "decode_bytes cp (to_bytes cp (S_s (sl_share (se_single_sellers (w_seller w) ! j))))
        = S_s (sl_share (se_single_sellers (w_seller w) ! j))" if "j < par_R P" for j
    using assms that by (simp_all add: exchange_ready_def decode_to_bytes less_imp_le)
  then show ?thesis
    by (simp add: publishes_def publisher_def ref_server_def v2string_string2v Let_def)
qed

section \<open>A setting for the witnesses\<close>

definition ref_setting :: "single_seller \<Rightarrow> single_buyer \<Rightarrow> setting" where
  "ref_setting a b = \<lparr>lib = ref_cryptopp, curve = ref_ec 0, lib_verifier = (\<lambda>Q m s. True), server = ref_server,
     mem_seller = a\<lparr>sl_keys_commits := [\<lparr>snd_m = [], snd_seed = [], snd_com = []\<rparr>]\<rparr>,
     mem_buyer = b\<lparr>sb_keys_commits := [\<lparr>rcv_open_verified = False, rcv_m = [], rcv_seed = [], rcv_com = []\<rparr>]\<rparr>,
     mem_flag = False, mem_past = (\<lambda>j. -1)\<rparr>"

definition ref_draw :: sell_draw where
  "ref_draw = \<lparr>dw_paillier = (37, 41), dw_timed = (7, 11), dw_keys = (\<lambda>i. ref_kd), dw_picks = (\<lambda>k. 0),
     dw_sigs = (\<lambda>i. ref_dr), dw_x = (\<lambda>j i. 2), dw_bits = (\<lambda>j i. False), dw_seed1 = (\<lambda>j i. []),
     dw_seed2 = (\<lambda>j i. []), dw_shuffle = (\<lambda>j xs. xs)\<rparr>"

definition ref_seller :: seller where
  "ref_seller = \<lparr>se_p = 7, se_q = 11, se_n = 77, se_price = 0, se_cheat = False,
     se_square_root = SquareRoot ref_cryptopp 7 11, se_y = (\<lambda>j i. 0), se_r1 = (\<lambda>j i. 0), se_r2 = (\<lambda>j i. 0),
     se_c1 = (\<lambda>j i. []), se_c2 = (\<lambda>j i. []), se_address = [], se_T1 = [], se_T1_output_script = [],
     se_original_T1_output_script = [], se_T2 = [], se_single_sellers = [],
     se_d1 = (\<lambda>j i. \<lparr>snd_m = [], snd_seed = [], snd_com = []\<rparr>),
     se_d2 = (\<lambda>j i. \<lparr>snd_m = [], snd_seed = [], snd_com = []\<rparr>)\<rparr>"

definition ref_world :: world where
  "ref_world = \<lparr>w_seller = ref_seller, w_buyer = ref_buyer [] [], w_calls = []\<rparr>"

abbreviation ref_hash :: string where
  "ref_hash \<equiv> replicate 32 (char_of (1 :: nat))"

lemma ref_hash_bytes: "string2v ref_hash = replicate 32 1"
  by (simp add: string2v_def byte_of_char_def)

lemma ref_honest_draws: "honest_draws (ref_setting a b) ref_one ref_draw (string2v ref_hash)"
proof -
  have p: "prime_integer 7" "prime_integer 11" by (simp_all add: prime_integer_code upto_rec_numeral)
  have x: "nonce_x (ref_ec 0) (sk_sig ref_dr) = 1"
    by (simp add: nonce_x_def ref_dr_def ref_ec_simps ref_point_def)
  have r: "nonce_r (ref_ec 0) (sk_sig ref_dr) = 1" unfolding nonce_r_def x by (simp add: ref_ec_simps)
  have d: "draws_ok (ref_ec 0) pn ref_kd (sk_sig ref_dr)" for pn
    by (simp add: draws_ok_def ref_kd_def ref_dr_def ref_ec_simps)
  have h: "0 \<le> sk_h ref_dr" "sk_h ref_dr < 77" by (simp_all add: ref_dr_def)
  have k: "shared_key ref_kd = 1" by (simp add: shared_key_def ref_kd_def)
  show ?thesis
    unfolding ref_hash_bytes
    by (simp add: honest_draws_def ref_setting_def ref_draw_def ref_curve_setup Let_def
        ref_paillier_key d p h x r k ref_message_int ref_one_def) (simp add: ref_ec_simps)
qed

lemma ref_honest_exchange: "honest_exchange (ref_setting a b) ref_one ref_draw 7 11 ref_hash ref_world"
proof -
  have "good_server ref_server ref_hash" by (simp add: good_server_def ref_server_def)
  moreover have "round_draws ref_cryptopp ref_one ref_draw 7 11 j" for j
    using root_setting_ref by (simp add: round_draws_def ref_one_def ref_draw_def lessThan_Suc)
  ultimately show ?thesis
    using ref_honest_draws [of a b]
    by (simp add: honest_exchange_def ref_setting_def ref_laws ref_world_def ref_seller_def ref_buyer_def ref_one_def)
qed

lemma ref_picks:
  "dw_picks ref_draw k \<in> {0..int (par_T ref_one) - 1}" "par_R ref_one \<le> card (dw_picks ref_draw ` {..<1})"
  by (simp_all add: ref_draw_def ref_one_def lessThan_Suc)

section \<open>Properties\<close>

text \<open>
  C1: the exchange does what it is for. Between an honest seller and an honest buyer of the factors
  of \<open>p * q\<close>, with a server that agrees, \<open>exec\<close> ends without an exception; and once a server finds
  the seller's transaction and the signatures in it, the buyer computes the two primes.
\<close>

theorem honest_exchange_sells_factors:
  assumes ok: "honest_exchange E P dw p q hash w"
    and picks: "\<And>k. dw_picks dw k \<in> {0..int (par_T P) - 1}" "par_R P \<le> card (dw_picks dw ` {..<N})"
    and p: "prime_integer p" "prime_integer q" "p \<noteq> q" and L: "0 < par_L P"
  shows "\<exists>w'. sell_exec E P dw w = Some (Inr (), w') \<and>
    (\<forall>env. publishes (lib E) P env (w_seller w') \<longrightarrow>
      (\<exists>w''. get_signature (lib E) env P w' = (Inr (), w'') \<and> {bu_p (w_buyer w''), bu_q (w_buyer w'')} = {p, q}))"
proof -
  obtain w1 where exec: "sell_exec E P dw w = Some (Inr (), w1)" and ready: "exchange_ready (lib E) P (p * q) w1"
    using sell_exec_run [OF ok picks] by blast
  have laws: "modular_laws (lib E)" "cipher_laws (lib E)" "encoding_laws (lib E)" "hash_laws (lib E)" "0 < par_R P"
    using ok by (simp_all add: honest_exchange_def honest_draws_def curve_setup_def)
  show ?thesis
    using exec get_signature_sold [OF laws(1-4) p ready laws(5) L] by blast
qed

theorem honest_exchange_sells_factors_witness:
  "\<forall>a b. \<exists>w' env w''. sell_exec (ref_setting a b) ref_one ref_draw ref_world = Some (Inr (), w')
    \<and> get_signature ref_cryptopp env ref_one w' = (Inr (), w'') \<and> {bu_p (w_buyer w''), bu_q (w_buyer w'')} = {7, 11}"
proof (intro allI)
  fix a b
  have p: "prime_integer 7" "prime_integer 11" by (simp_all add: prime_integer_code upto_rec_numeral)
  have L: "0 < par_L ref_one" "lib (ref_setting a b) = ref_cryptopp" by (simp_all add: ref_one_def ref_setting_def)
  obtain w' where w': "sell_exec (ref_setting a b) ref_one ref_draw ref_world = Some (Inr (), w')"
    "exchange_ready (lib (ref_setting a b)) ref_one (7 * 11) w'"
    using sell_exec_run [OF ref_honest_exchange ref_picks] by blast
  have "publishes ref_cryptopp ref_one (publisher ref_cryptopp ref_one (w_seller w')) (w_seller w')"
    using publisher_publishes w'(2) ref_laws(1) by (simp add: L(2))
  moreover obtain v where "sell_exec (ref_setting a b) ref_one ref_draw ref_world = Some (Inr (), v)"
    "\<And>env. publishes ref_cryptopp ref_one env (w_seller v) \<Longrightarrow>
      \<exists>w''. get_signature ref_cryptopp env ref_one v = (Inr (), w'') \<and> {bu_p (w_buyer w''), bu_q (w_buyer w'')} = {7, 11}"
    using honest_exchange_sells_factors [OF ref_honest_exchange [of a b] ref_picks p _ L(1)] unfolding L(2) by auto
  moreover have "v = w'" using calculation(2) w'(1) by simp
  ultimately show "\<exists>w' env w''. sell_exec (ref_setting a b) ref_one ref_draw ref_world = Some (Inr (), w')
    \<and> get_signature ref_cryptopp env ref_one w' = (Inr (), w'') \<and> {bu_p (w_buyer w''), bu_q (w_buyer w'')} = {7, 11}"
    by metis
qed

text \<open>The first turn of the thread of the time lock: it asks for a redemption with the right key.\<close>

lemma redeem_first:
  assumes ready: "refund_ready E P dw (w_buyer w)" and enc: "encoding_laws (lib E)" and R: "0 < par_R P"
    and size: "\<And>i. i < par_T P \<Longrightarrow> 8 * min_encoded_size (lib E) (draw_ds (dw_keys dw i)) < 2 ^ 32"
  shows "\<exists>d. let B = sb_share (bu_single_buyers (w_buyer w) ! 0);
      c = RedeemTransaction (bu_T1 (w_buyer w)) (bu_original_T1_output_script (w_buyer w)) (integer2string (lib E) d)
        (integer2string (lib E) (x_coord (B_Q B))) (integer2string (lib E) (y_coord (B_Q B))) (par_R P);
      w' = w\<lparr>w_calls := w_calls w @ [c]\<rparr>
    in (\<forall>env. redeem_loop (lib E) env P False [0..<par_R P] w =
         (case rpc_bool env (w_calls w) c of
            Inl e \<Rightarrow> Some (Inl e, w')
          | Inr res \<Rightarrow> redeem_loop (lib E) env P res [1..<par_R P] w')) \<and>
       ec_multiply (curve E) d (ec_generator (curve E)) = B_Q B"
proof -
  let ?b = "bu_single_buyers (w_buyer w) ! 0"
  obtain i where i: "i < par_T P" and sealed: "key_sealed (lib E) (curve E) (draw_ds (dw_keys dw i)) ?b"
    using ready R by (auto simp: refund_ready_def)
  have at: "at_vector (bu_single_buyers (w_buyer w)) 0 = Inr ?b"
    using ready R by (auto simp: refund_ready_def at_vector_def)
  obtain bits where bits: "force_open (lib E) (sb_receiver ?b) = Some (Inr bits)"
    "bits_to_integer (lib E) bits = Inr (draw_ds (dw_keys dw i))"
    using key_sealed_opens [OF sealed enc size [OF i]] by blast
  have n: "B_get_n (sb_share ?b) = ec_order (curve E)" using sealed by (simp add: key_sealed_def B_get_n_def)
  let ?d = "draw_ds (dw_keys dw i) * B_db (sb_share ?b) mod ec_order (curve E)"
  have js: "[0..<par_R P] = 0 # [1..<par_R P]" using R by (simp add: upt_conv_Cons)
  have "ec_multiply (curve E) ?d (ec_generator (curve E)) = B_Q (sb_share ?b)"
    using sealed by (simp add: key_sealed_def)
  then show ?thesis using at bits n
    by (intro exI [of _ ?d]) (simp add: js rpc_call_def Let_def split: sum.split)
qed

text \<open>The thread of the time lock when the server accepts the first redemption.\<close>

lemma solve_time_lock_run:
  assumes ready: "refund_ready E P dw (w_buyer w)" and enc: "encoding_laws (lib E)" and R: "0 < par_R P"
    and size: "\<And>i. i < par_T P \<Longrightarrow> 8 * min_encoded_size (lib E) (draw_ds (dw_keys dw i)) < 2 ^ 32"
    and yes: "\<And>log c. is_redeem c \<Longrightarrow> rpc_bool env log c = Inr True"
  shows "\<exists>d. let B = sb_share (bu_single_buyers (w_buyer w) ! 0);
      c = RedeemTransaction (bu_T1 (w_buyer w)) (bu_original_T1_output_script (w_buyer w)) (integer2string (lib E) d)
        (integer2string (lib E) (x_coord (B_Q B))) (integer2string (lib E) (y_coord (B_Q B))) (par_R P)
    in solve_time_lock (lib E) env P w = Some (Inr (), w\<lparr>w_calls := w_calls w @ [c]\<rparr>) \<and>
       ec_multiply (curve E) d (ec_generator (curve E)) = B_Q B"
proof -
  have stop: "redeem_loop (lib E) env P True js v = Some (Inr True, v)" for js v by (cases js) simp_all
  from redeem_first [OF ready enc R size] obtain d where "let B = sb_share (bu_single_buyers (w_buyer w) ! 0);
      c = RedeemTransaction (bu_T1 (w_buyer w)) (bu_original_T1_output_script (w_buyer w)) (integer2string (lib E) d)
        (integer2string (lib E) (x_coord (B_Q B))) (integer2string (lib E) (y_coord (B_Q B))) (par_R P);
      w' = w\<lparr>w_calls := w_calls w @ [c]\<rparr>
    in (\<forall>env. redeem_loop (lib E) env P False [0..<par_R P] w =
         (case rpc_bool env (w_calls w) c of
            Inl e \<Rightarrow> Some (Inl e, w')
          | Inr res \<Rightarrow> redeem_loop (lib E) env P res [1..<par_R P] w')) \<and>
       ec_multiply (curve E) d (ec_generator (curve E)) = B_Q B" by blast
  then show ?thesis using yes by (intro exI [of _ d]) (simp add: Let_def solve_time_lock_def stop)
qed

text \<open>And when the server raises.\<close>

lemma redeem_loop_raises:
  assumes "refund_ready E P dw (w_buyer w)" "encoding_laws (lib E)" "0 < par_R P"
    and "\<And>i. i < par_T P \<Longrightarrow> 8 * min_encoded_size (lib E) (draw_ds (dw_keys dw i)) < 2 ^ 32"
    and "\<And>log c. is_redeem c \<Longrightarrow> rpc_bool env log c = Inl e"
  shows "\<exists>c. redeem_loop (lib E) env P False [0..<par_R P] w = Some (Inl e, w\<lparr>w_calls := w_calls w @ [c]\<rparr>)"
  using redeem_first [OF assms(1-4)] assms(5) by (auto simp: Let_def)



text \<open>
  C3: nothing is broadcast before the checks. If a run broadcasts a transaction, then the first
  cut-and-choose accepted and all rounds of the second returned, and the calls after that are, in
  order, the buyer's payment, the seller's verification of it, its wait for confirmations and, for a
  seller that takes its payment, the broadcast of T2, each made only if all before were answered
  with true.
\<close>

theorem payments_after_checks:
  assumes exec: "sell_exec E P dw w = Some (r, w')"
    and t: "BroadcastTransaction t \<in> set (drop (length (w_calls w)) (w_calls w'))"
  shows "\<exists>as bs b w1 xs ys k. setup_parties E P dw = Inr (as, bs)
    \<and> pickR (dw_picks dw) (par_R P) (w_buyer w) = Some b
    \<and> off_chain E P dw as bs (w\<lparr>w_buyer := b\<rparr>) = (Inr (), w1)
    \<and> w_calls w' = w_calls w1 @ take k (BroadcastTransaction (bu_T1 (w_buyer w1)) # map fst (chain_calls w1 xs ys))
    \<and> (\<forall>i. Suc i < k \<longrightarrow> rpc_bool (server E)
         (w_calls w1 @ take i (BroadcastTransaction (bu_T1 (w_buyer w1)) # map fst (chain_calls w1 xs ys)))
         ((BroadcastTransaction (bu_T1 (w_buyer w1)) # map fst (chain_calls w1 xs ys)) ! i) = Inr True)"
proof (cases "setup_parties E P dw")
  case (Inl e)
  then show ?thesis using exec t by (simp add: sell_exec_def)
next
  case (Inr p)
  obtain as bs where p: "p = (as, bs)" by (cases p)
  obtain b where b: "pickR (dw_picks dw) (par_R P) (w_buyer w) = Some b"
    and run: "seq (off_chain E P dw as bs) (on_chain E P) (w\<lparr>w_buyer := b\<rparr>) = (r, w')"
    using exec Inr p by (auto simp: sell_exec_def split: option.splits)
  obtain r1 w1 where off: "off_chain E P dw as bs (w\<lparr>w_buyer := b\<rparr>) = (r1, w1)" by (metis surj_pair)
  then obtain cs where cs: "w_calls w1 = w_calls w @ cs" "\<forall>c\<in>set cs. \<not> is_broadcast c"
    using off_chain_quiet [of E P dw as bs] unfolding quiet_def
    by (metis (no_types, lifting) snd_conv world.select_convs(3) world.surjective world.update_convs(2))
  show ?thesis
  proof (cases r1)
    case (Inl e)
    then have "w' = w1" using run off by (simp add: seq_def and_then_def)
    then show ?thesis using t cs by auto
  next
    case Inr1: (Inr u)
    then have "on_chain E P w1 = (r, w')" using run off by (simp add: seq_def and_then_def)
    then show ?thesis
      using on_chain_calls [of E w1 P] Inr p b off Inr1 by (auto simp: asked_def)
  qed
qed

theorem payments_after_checks_witness:
  "\<forall>a b. \<exists>w' as bs bu w1. sell_exec (ref_setting a b) ref_one ref_draw ref_world = Some (Inr (), w')
    \<and> setup_parties (ref_setting a b) ref_one ref_draw = Inr (as, bs)
    \<and> off_chain (ref_setting a b) ref_one ref_draw as bs (ref_world\<lparr>w_buyer := bu\<rparr>) = (Inr (), w1)"
proof (intro allI)
  fix a b
  obtain w' cs t cs' where exec: "sell_exec (ref_setting a b) ref_one ref_draw ref_world = Some (Inr (), w')"
    and calls: "w_calls w' = w_calls ref_world @ cs @ BroadcastTransaction t # cs'"
    using sell_exec_run [OF ref_honest_exchange ref_picks] by blast
  have "BroadcastTransaction t \<in> set (drop (length (w_calls ref_world)) (w_calls w'))" using calls by simp
  from payments_after_checks [OF exec this] exec
  show "\<exists>w' as bs bu w1. sell_exec (ref_setting a b) ref_one ref_draw ref_world = Some (Inr (), w')
    \<and> setup_parties (ref_setting a b) ref_one ref_draw = Inr (as, bs)
    \<and> off_chain (ref_setting a b) ref_one ref_draw as bs (ref_world\<lparr>w_buyer := bu\<rparr>) = (Inr (), w1)"
    by blast
qed

end
