(* ===== verification/Invariants.thy ===== *)
theory Invariants
  imports Settlement
begin

text \<open>
  Invariants of the exchange of main/sell_information.cpp that hold on every path, exceptions
  included, for any libraries, server and random numbers: what the parties negotiated never changes,
  and the rounds keep the shape of the vectors.
\<close>

section \<open>Computations that keep a predicate\<close>

definition keeps :: "('s \<Rightarrow> bool) \<Rightarrow> ('s, 'a) comp \<Rightarrow> bool" where
  "keeps I f \<longleftrightarrow> (\<forall>w. I w \<longrightarrow> I (snd (f w)))"

named_theorems keeps_rules \<open>the computations that keep a predicate\<close>

lemma keepsD: "keeps I f \<Longrightarrow> I w \<Longrightarrow> f w = (r, w') \<Longrightarrow> I w'"
  unfolding keeps_def by (metis snd_conv)

lemma keepsI: "(\<And>w. I w \<Longrightarrow> I (snd (f w))) \<Longrightarrow> keeps I f"
  by (simp add: keeps_def)

lemma keeps_basic [keeps_rules]:
  "keeps I (ret x)" "keeps I (throw e)" "keeps I (from_sum r)" "keeps I (fetch f)" "keeps I (throw_if b e)"
  "keeps I (\<lambda>w. (k w, w))"
  by (simp_all add: keeps_def)

lemma keeps_and_then [keeps_rules]:
  "keeps I f \<Longrightarrow> (\<And>x. keeps I (g x)) \<Longrightarrow> keeps I (and_then f g)"
  by (auto simp: keeps_def and_then_def split: prod.splits sum.splits)

lemma keeps_seq [keeps_rules]: "keeps I f \<Longrightarrow> keeps I g \<Longrightarrow> keeps I (seq f g)"
  unfolding seq_def by (rule keeps_and_then)

lemma keeps_for_each [keeps_rules]:
  assumes "\<And>x. keeps I (body x)"
  shows "keeps I (for_each xs body)"
  using assms unfolding keeps_def by (metis for_each_preserves)

lemma keeps_if [keeps_rules]: "keeps I f \<Longrightarrow> keeps I g \<Longrightarrow> keeps I (if b then f else g)"
  by simp

lemma keeps_case_prod [keeps_rules]: "(\<And>x y. keeps I (f x y)) \<Longrightarrow> keeps I (case p of (x, y) \<Rightarrow> f x y)"
  by (cases p) simp

lemma keeps_protocol [keeps_rules]:
  "keeps I (\<lambda>w. case G of (Inl e, t) \<Rightarrow> (Inl e, w) | (Inr x, p, v) \<Rightarrow> (Inr (p, v), w))"
  by (auto simp: keeps_def split: prod.splits sum.splits)

lemma keeps_argument: "(\<And>t. keeps I (f t)) \<Longrightarrow> keeps I (\<lambda>w. f (g w) w)"
  by (simp add: keeps_def)

lemma fold_part:
  assumes "\<And>i s. g (f i s) = g s"
  shows "g (fold f xs s) = g s"
  by (induction xs arbitrary: s) (simp_all add: assms)

lemma for_each_part:
  assumes "\<And>i s. g (snd (body i s)) = g s"
  shows "g (snd (for_each xs body s)) = g s"
  using for_each_preserves [of xs "\<lambda>t. g t = g s" body s] assms by simp

section \<open>Views of the parties that the rounds do not change\<close>

text \<open>
  A round writes the squares, roots, ciphertexts, commitments and indices of the parties, and runs the
  opening of one key commitment. A view of the two parties that none of these writes changes is not
  changed by a round, whatever its outcome.
\<close>

locale round_view =
  fixes sv :: "seller \<Rightarrow> 'a" and bv :: "buyer \<Rightarrow> 'b"
  assumes seller_writes: "sv (s\<lparr>se_y := y\<rparr>) = sv s" "sv (s\<lparr>se_r1 := t1, se_r2 := t2\<rparr>) = sv s"
      "sv (s\<lparr>se_c1 := u\<rparr>) = sv s" "sv (s\<lparr>se_c2 := u\<rparr>) = sv s"
      "sv (s\<lparr>se_d1 := v\<rparr>) = sv s" "sv (s\<lparr>se_d2 := v\<rparr>) = sv s"
    and buyer_writes: "bv (b\<lparr>bu_x := x\<rparr>) = bv b" "bv (b\<lparr>bu_y := x\<rparr>) = bv b" "bv (b\<lparr>bu_indices := k\<rparr>) = bv b"
      "bv (b\<lparr>bu_d1 := r\<rparr>) = bv b" "bv (b\<lparr>bu_d2 := r\<rparr>) = bv b"
    and keys: "at_index j (on_keys (at_index i f)) (se_single_sellers s, bu_single_buyers b) = (res, as, bs) \<Longrightarrow>
      sv (s\<lparr>se_single_sellers := as\<rparr>) = sv s \<and> bv (b\<lparr>bu_single_buyers := bs\<rparr>) = bv b"
begin

lemma seller_steps:
  "sv (snd (find_root cp j bits i s)) = sv s" "sv (snd (encrypt_root cp j i s)) = sv s"
proof -
  have two: "sv (s\<lparr>se_r1 := t1, se_r2 := t2, se_r1 := t3, se_r2 := t4\<rparr>) = sv s" for t1 t2 t3 t4
    by (simp only: seller_writes)
  show "sv (snd (find_root cp j bits i s)) = sv s"
    by (simp add: find_root_def seller_writes Let_def split: sum.splits)
  show "sv (snd (encrypt_root cp j i s)) = sv s"
    by (simp add: encrypt_root_def seller_writes Let_def split: sum.splits)
qed

lemma seller_rows: "sv (setupCommit L j s) = sv s" "sv (acceptSquares j y s) = sv s"
proof -
  show "sv (setupCommit L j s) = sv s"
    unfolding setupCommit_def by (rule fold_part) (simp add: seller_writes)
  show "sv (acceptSquares j y s) = sv s" by (simp add: acceptSquares_def seller_writes)
qed

lemma buyer_rows: "bv (genSquares L x j b) = bv b" "bv (pickSubset sh L j b) = bv b"
proof -
  show "bv (genSquares L x j b) = bv b"
    unfolding genSquares_def by (rule fold_part) (simp add: buyer_writes Let_def)
  show "bv (pickSubset sh L j b) = bv b" by (simp add: pickSubset_def buyer_writes Let_def)
qed

lemma keeps_party:
  assumes "\<And>s. sv (snd (F s)) = sv s"
  shows "keeps (\<lambda>w. sv (w_seller w) = S \<and> bv (w_buyer w) = B)
    (\<lambda>w. case F (w_seller w) of (r, s) \<Rightarrow> (r, w\<lparr>w_seller := s\<rparr>))"
proof (rule keepsI)
  fix w assume "sv (w_seller w) = S \<and> bv (w_buyer w) = B"
  then show "sv (w_seller (snd (case F (w_seller w) of (r, s) \<Rightarrow> (r, w\<lparr>w_seller := s\<rparr>)))) = S \<and>
      bv (w_buyer (snd (case F (w_seller w) of (r, s) \<Rightarrow> (r, w\<lparr>w_seller := s\<rparr>)))) = B"
    using assms [of "w_seller w"] by (cases "F (w_seller w)") simp
qed

lemma keeps_rows:
  "keeps (\<lambda>w. sv (w_seller w) = S \<and> bv (w_buyer w) = B)
    (\<lambda>w. case findRoots cp L bits j (w_seller w) of (r, s) \<Rightarrow> (r, w\<lparr>w_seller := s\<rparr>))"
  "keeps (\<lambda>w. sv (w_seller w) = S \<and> bv (w_buyer w) = B)
    (\<lambda>w. case encryptRoots cp L j (w_seller w) of (r, s) \<Rightarrow> (r, w\<lparr>w_seller := s\<rparr>))"
  "keeps (\<lambda>w. sv (w_seller w) = S \<and> bv (w_buyer w) = B) (on_seller (setupCommit L j))"
  "keeps (\<lambda>w. sv (w_seller w) = S \<and> bv (w_buyer w) = B) (\<lambda>w. on_seller (acceptSquares j (y w)) w)"
  "keeps (\<lambda>w. sv (w_seller w) = S \<and> bv (w_buyer w) = B) (on_buyer (genSquares L x j))"
  "keeps (\<lambda>w. sv (w_seller w) = S \<and> bv (w_buyer w) = B) (on_buyer (pickSubset sh L j))"
  by (unfold findRoots_def encryptRoots_def, (rule keeps_party, simp add: for_each_part seller_steps)+)
    (simp_all add: keeps_def on_seller_def on_buyer_def seller_rows buyer_rows)

lemma keeps_openings:
  "keeps (\<lambda>w. sv (w_seller w) = S \<and> bv (w_buyer w) = B) (on_d1 j i f)"
  "keeps (\<lambda>w. sv (w_seller w) = S \<and> bv (w_buyer w) = B) (on_d2 j i f)"
  "keeps (\<lambda>w. sv (w_seller w) = S \<and> bv (w_buyer w) = B) (on_key j i f)"
  using keys by (auto simp: keeps_def on_d1_def on_d2_def on_key_def seller_writes buyer_writes split: prod.splits)

lemma keeps_round: "keeps (\<lambda>w. sv (w_seller w) = S \<and> bv (w_buyer w) = B) (sell_round E P dw j)"
  unfolding sell_round_def commit_phase_def check_phase_def commit_roots_def check_root_def open_both_def Let_def
  by (intro keeps_rules keeps_rows keeps_openings)

end

section \<open>Views of the parties that the exchange does not change\<close>

text \<open>The whole exchange also writes the transactions, the vectors of parties and the picked indices.\<close>

locale exchange_view = round_view sv bv for sv :: "seller \<Rightarrow> 'a" and bv :: "buyer \<Rightarrow> 'b" +
  assumes seller_sets: "sv (s\<lparr>se_T1 := t\<rparr>) = sv s" "sv (s\<lparr>se_T2 := t\<rparr>) = sv s"
      "sv (s\<lparr>se_T1_output_script := t\<rparr>) = sv s" "sv (s\<lparr>se_original_T1_output_script := t\<rparr>) = sv s"
      "sv (s\<lparr>se_single_sellers := as\<rparr>) = sv s"
    and buyer_sets: "bv (b\<lparr>bu_seller_address := t\<rparr>) = bv b" "bv (b\<lparr>bu_T2 := t\<rparr>) = bv b"
      "bv (b\<lparr>bu_T1 := t1, bu_original_T1_output_script := t2, bu_T1_output_script := t3\<rparr>) = bv b"
      "bv (b\<lparr>bu_T2_hash := t\<rparr>) = bv b" "bv (b\<lparr>bu_r := is\<rparr>) = bv b" "bv (b\<lparr>bu_single_buyers := bs\<rparr>) = bv b"
begin

lemma keeps_calls:
  "keeps (\<lambda>w. sv (w_seller w) = S \<and> bv (w_buyer w) = B) (\<lambda>w. rpc_call answer (c w) w)"
  "keeps (\<lambda>w. sv (w_seller w) = S \<and> bv (w_buyer w) = B) (rpc_call answer c')"
  by (simp_all add: keeps_def rpc_call_def)

lemma keeps_sets:
  "keeps (\<lambda>w. sv (w_seller w) = S \<and> bv (w_buyer w) = B) (on_seller (\<lambda>s. s\<lparr>se_T1 := t\<rparr>))"
  "keeps (\<lambda>w. sv (w_seller w) = S \<and> bv (w_buyer w) = B) (on_seller (\<lambda>s. s\<lparr>se_T2 := t\<rparr>))"
  "keeps (\<lambda>w. sv (w_seller w) = S \<and> bv (w_buyer w) = B) (on_seller (addSingleSeller a))"
  "keeps (\<lambda>w. sv (w_seller w) = S \<and> bv (w_buyer w) = B) (\<lambda>w. on_seller (setT1OutputScript (u w)) w)"
  "keeps (\<lambda>w. sv (w_seller w) = S \<and> bv (w_buyer w) = B) (\<lambda>w. on_seller (setOriginalT1OutputScript (u w)) w)"
  "keeps (\<lambda>w. sv (w_seller w) = S \<and> bv (w_buyer w) = B) (\<lambda>w. on_seller (setT2 (u w)) w)"
  "keeps (\<lambda>w. sv (w_seller w) = S \<and> bv (w_buyer w) = B) (on_buyer (addSingleBuyer c))"
  "keeps (\<lambda>w. sv (w_seller w) = S \<and> bv (w_buyer w) = B) (on_buyer clearSingleBuyers)"
  "keeps (\<lambda>w. sv (w_seller w) = S \<and> bv (w_buyer w) = B) (on_buyer (setSellerAddress t))"
  "keeps (\<lambda>w. sv (w_seller w) = S \<and> bv (w_buyer w) = B) (on_buyer (\<lambda>b. b\<lparr>bu_T1 := t1, bu_original_T1_output_script := t2, bu_T1_output_script := t3\<rparr>))"
  "keeps (\<lambda>w. sv (w_seller w) = S \<and> bv (w_buyer w) = B) (on_buyer (\<lambda>b. b\<lparr>bu_T2 := t\<rparr>))"
  "keeps (\<lambda>w. sv (w_seller w) = S \<and> bv (w_buyer w) = B) (on_buyer (\<lambda>b. b\<lparr>bu_T2_hash := t\<rparr>))"
  by (simp_all add: keeps_def on_seller_def on_buyer_def seller_sets buyer_sets)

lemma keeps_off_chain: "keeps (\<lambda>w. sv (w_seller w) = S \<and> bv (w_buyer w) = B) (off_chain E P dw as bs)"
  unfolding off_chain_def first_phase_def add_single_buyers_def add_both_def createT1AndT2_def verifyT2Signature_def
  by (intro keeps_rules keeps_calls keeps_sets keeps_round)

lemma keeps_accept_T1: "keeps (\<lambda>w. sv (w_seller w) = S \<and> bv (w_buyer w) = B) (accept_T1 cp env P T1)"
  unfolding accept_T1_def by (intro keeps_rules keeps_calls keeps_sets)

lemma keeps_on_chain: "keeps (\<lambda>w. sv (w_seller w) = S \<and> bv (w_buyer w) = B) (on_chain E P)"
  unfolding on_chain_def make_payment_def accept_payment_def
  by (intro keeps_rules keeps_calls keeps_argument [OF keeps_accept_T1])

lemma exec_view:
  assumes "sell_exec E P dw w = Some (r, w')"
  shows "sv (w_seller w') = sv (w_seller w)" "bv (w_buyer w') = bv (w_buyer w)"
proof -
  have "sv (w_seller w') = sv (w_seller w) \<and> bv (w_buyer w') = bv (w_buyer w)"
  proof (cases "setup_parties E P dw")
    case (Inl e)
    then show ?thesis using assms by (simp add: sell_exec_def)
  next
    case (Inr p)
    obtain as bs where p: "p = (as, bs)" by (cases p)
    obtain b where b: "pickR (dw_picks dw) (par_R P) (w_buyer w) = Some b"
      using assms Inr by (cases "pickR (dw_picks dw) (par_R P) (w_buyer w)") (simp_all add: p sell_exec_def)
    have run: "seq (off_chain E P dw as bs) (on_chain E P) (w\<lparr>w_buyer := b\<rparr>) = (r, w')"
      using assms Inr b by (simp add: p sell_exec_def)
    have "bv b = bv (w_buyer w)" using b by (auto simp: pickR_def buyer_sets)
    then show ?thesis using keepsD [OF keeps_seq [OF keeps_off_chain keeps_on_chain] _ run] by simp
  qed
  then show "sv (w_seller w') = sv (w_seller w)" "bv (w_buyer w') = bv (w_buyer w)" by simp_all
qed

end

section \<open>What the parties negotiated\<close>

definition seller_negotiated ::
    "seller \<Rightarrow> int \<times> int \<times> int \<times> 32 word \<times> bool \<times> square_root_class \<times> string" where
  "seller_negotiated s = (se_p s, se_q s, se_n s, se_price s, se_cheat s, se_square_root s, se_address s)"

definition buyer_negotiated :: "buyer \<Rightarrow> int \<times> 32 word" where
  "buyer_negotiated b = (bu_n b, bu_price b)"

definition negotiated ::
    "world \<Rightarrow> (int \<times> int \<times> int \<times> 32 word \<times> bool \<times> square_root_class \<times> string) \<times> int \<times> 32 word" where
  "negotiated w = (seller_negotiated (w_seller w), buyer_negotiated (w_buyer w))"

interpretation terms: exchange_view seller_negotiated buyer_negotiated
  by unfold_locales (simp_all add: seller_negotiated_def buyer_negotiated_def)

text \<open>The two results of the buyer are written by the factorisation only.\<close>

definition buyer_results :: "buyer \<Rightarrow> int \<times> int" where
  "buyer_results b = (bu_p b, bu_q b)"

interpretation results: exchange_view seller_negotiated buyer_results
  by unfold_locales (simp_all add: seller_negotiated_def buyer_results_def)

lemma get_signature_terms: "keeps (\<lambda>w. negotiated w = N) (get_signature cp env P)"
proof -
  have sig: "keeps (\<lambda>w. negotiated w = N) (on_buyer (\<lambda>b. b\<lparr>bu_signatures := h b\<rparr>))" for h
    by (simp add: keeps_def on_buyer_def negotiated_def buyer_negotiated_def)
  have fac: "keeps (\<lambda>w. negotiated w = N) (\<lambda>w. case factorise cp P (w_buyer w) of (r, b) \<Rightarrow> (r, w\<lparr>w_buyer := b\<rparr>))"
    by (auto simp: keeps_def factorise_def negotiated_def buyer_negotiated_def Let_def split: sum.splits prod.splits)
  have call: "keeps (\<lambda>w. negotiated w = N) (\<lambda>w. rpc_call answer (c w) w)" for answer c
    by (simp add: keeps_def negotiated_def rpc_call_def)
  show ?thesis unfolding get_signature_def by (intro keeps_rules sig fac call)
qed

section \<open>The shape of the vectors\<close>

definition seller_shape :: "seller \<Rightarrow> nat list" where
  "seller_shape s = map (\<lambda>a. length (sl_keys_commits a)) (se_single_sellers s)"

definition buyer_shape :: "buyer \<Rightarrow> nat list" where
  "buyer_shape b = map (\<lambda>a. length (sb_keys_commits a)) (bu_single_buyers b)"

lemma key_shape:
  assumes "at_index j (on_keys (at_index i f)) (as, bs) = (res, as', bs')"
  shows "map (\<lambda>a. length (sl_keys_commits a)) as' = map (\<lambda>a. length (sl_keys_commits a)) as \<and>
    map (\<lambda>a. length (sb_keys_commits a)) bs' = map (\<lambda>a. length (sb_keys_commits a)) bs"
proof (cases "j < length as \<and> j < length bs")
  case False
  then show ?thesis using assms by (auto simp: at_index_def)
next
  case True
  obtain r ks ls where o: "at_index i f (sl_keys_commits (as ! j), sb_keys_commits (bs ! j)) = (r, ks, ls)"
    by (metis surj_pair)
  then have "length ks = length (sl_keys_commits (as ! j))" "length ls = length (sb_keys_commits (bs ! j))"
    using at_index_lengths [of i f "sl_keys_commits (as ! j)" "sb_keys_commits (bs ! j)"] by simp_all
  then show ?thesis using assms True o
    by (auto simp: at_index_def on_keys_def map_update list_update_same_conv)
qed

interpretation shape: round_view seller_shape buyer_shape
  by unfold_locales (auto simp: seller_shape_def buyer_shape_def dest: key_shape)

section \<open>No undefined behaviour\<close>

text \<open>A computation that keeps a predicate and does nothing undefined where it holds.\<close>

definition sound :: "('s \<Rightarrow> bool) \<Rightarrow> ('s, 'a) comp \<Rightarrow> bool" where
  "sound I f \<longleftrightarrow> keeps I f \<and> (\<forall>w. I w \<longrightarrow> fst (f w) \<noteq> Inl Undefined)"

named_theorems sound_rules \<open>the computations that do nothing undefined\<close>

lemma soundI: "keeps I f \<Longrightarrow> (\<And>w. I w \<Longrightarrow> fst (f w) \<noteq> Inl Undefined) \<Longrightarrow> sound I f"
  by (simp add: sound_def)

lemma sound_basic [sound_rules]:
  "sound I (ret x)" "sound I (fetch f)" "sound I (\<lambda>w. (Inr (k w), w))"
  by (simp_all add: sound_def keeps_def)

lemma sound_and_then [sound_rules]:
  assumes f: "sound I f" and g: "\<And>x. sound I (g x)"
  shows "sound I (and_then f g)"
proof (rule soundI)
  show "keeps I (and_then f g)" using f g by (auto simp: sound_def intro: keeps_and_then)
  fix w assume "I w"
  with f obtain r w' where r: "f w = (r, w')" "I w'" "r \<noteq> Inl Undefined"
    by (metis fst_conv keepsD sound_def surj_pair)
  then show "fst (and_then f g w) \<noteq> Inl Undefined"
    using g by (cases r) (auto simp: and_then_def sound_def)
qed

lemma sound_seq [sound_rules]: "sound I f \<Longrightarrow> sound I g \<Longrightarrow> sound I (seq f g)"
  unfolding seq_def by (rule sound_and_then)

text \<open>What follows a guard may rely on it.\<close>

lemma sound_guard: "e \<noteq> Undefined \<Longrightarrow> (\<not> b \<Longrightarrow> sound I g) \<Longrightarrow> sound I (seq (throw_if b e) g)"
  by (cases b) (simp_all add: sound_def keeps_def seq_def and_then_def)

lemma sound_for_each [sound_rules]:
  assumes "\<And>x. x \<in> set xs \<Longrightarrow> sound I (body x)"
  shows "sound I (for_each xs body)"
  using assms
proof (induction xs)
  case Nil
  then show ?case by (simp add: sound_def keeps_def)
next
  case (Cons x xs)
  have "for_each (x # xs) body = and_then (body x) (\<lambda>_. for_each xs body)"
    by (simp add: and_then_def fun_eq_iff)
  then show ?case using Cons by (simp add: sound_and_then)
qed

definition well_shaped :: "params \<Rightarrow> world \<Rightarrow> bool" where
  "well_shaped P w \<longleftrightarrow> seller_shape (w_seller w) = replicate (par_R P) (par_L P) \<and>
     buyer_shape (w_buyer w) = replicate (par_R P) (par_L P)"

lemma shape_nth:
  assumes "map f xs = replicate n k" "i < n"
  shows "i < length xs" "f (xs ! i) = k"
proof -
  have "length xs = n" using arg_cong [OF assms(1), of length] by simp
  then show "i < length xs" using assms(2) by simp
  moreover have "map f xs ! i = k" using assms by simp
  ultimately show "f (xs ! i) = k" by simp
qed

lemma well_shaped_vectors:
  assumes "well_shaped P w" "j < par_R P"
  shows "j < length (se_single_sellers (w_seller w))" "length (sl_keys_commits (se_single_sellers (w_seller w) ! j)) = par_L P"
    "j < length (bu_single_buyers (w_buyer w))" "length (sb_keys_commits (bu_single_buyers (w_buyer w) ! j)) = par_L P"
  using assms shape_nth [of "\<lambda>a. length (sl_keys_commits a)"] shape_nth [of "\<lambda>a. length (sb_keys_commits a)"]
  by (auto simp: well_shaped_def seller_shape_def buyer_shape_def)

lemma findRoots_sound: "sound (\<lambda>s. seller_shape s = S) (findRoots cp L bits j)"
  unfolding findRoots_def
proof (intro sound_for_each soundI keepsI)
  fix i s
  show "seller_shape s = S \<Longrightarrow> seller_shape (snd (find_root cp j bits i s)) = S"
    by (simp add: shape.seller_steps)
  show "fst (find_root cp j bits i s) \<noteq> Inl Undefined"
    by (auto simp: find_root_def all_square_roots_def square_root_def sum_then_def Let_def split: sum.splits if_splits)
qed

lemma encryptRoots_sound:
  assumes "j < R" shows "sound (\<lambda>s. seller_shape s = replicate R L) (encryptRoots cp L j)"
  unfolding encryptRoots_def
proof (intro sound_for_each soundI keepsI)
  fix i s
  assume i: "i \<in> set [0..<L]" and s: "seller_shape s = replicate R L"
  then show "seller_shape (snd (encrypt_root cp j i s)) = replicate R L"
    by (simp add: shape.seller_steps)
  have "j < length (se_single_sellers s)" "i < length (sl_keys_commits (se_single_sellers s ! j))"
    using shape_nth [OF s [unfolded seller_shape_def] assms] i by simp_all
  then show "fst (encrypt_root cp j i s) \<noteq> Inl Undefined"
    by (auto simp: encrypt_root_def at_vector_def enc_vector_def Let_def)
qed

lemma openings_defined:
  assumes "\<And>t. fst (f t) \<noteq> Inl Undefined"
  shows "fst (on_d1 j i f w) \<noteq> Inl Undefined" "fst (on_d2 j i f w) \<noteq> Inl Undefined"
    "well_shaped P w \<Longrightarrow> j < par_R P \<Longrightarrow> i < par_L P \<Longrightarrow> fst (on_key j i f w) \<noteq> Inl Undefined"
proof -
  show "fst (on_d1 j i f w) \<noteq> Inl Undefined" "fst (on_d2 j i f w) \<noteq> Inl Undefined"
    using assms by (simp_all add: on_d1_def on_d2_def split: prod.splits) (metis fst_conv)+
  assume w: "well_shaped P w" "j < par_R P" "i < par_L P"
  let ?k = "sl_keys_commits (se_single_sellers (w_seller w) ! j) ! i"
    and ?l = "sb_keys_commits (bu_single_buyers (w_buyer w) ! j) ! i"
  obtain r a b where "f (?k, ?l) = (r, a, b)" by (metis surj_pair)
  then show "fst (on_key j i f w) \<noteq> Inl Undefined"
    using assms [of "(?k, ?l)"] well_shaped_vectors [OF w(1,2)] w(3)
    by (simp add: on_key_def at_index_def on_keys_def)
qed

lemma sha_defined:
  "fst (sha_init t) \<noteq> Inl Undefined" "fst (sha_exec cp seed t) \<noteq> Inl Undefined" "fst (sha_open cp t) \<noteq> Inl Undefined"
  by (cases t, simp add: sha_init_def sha_exec_def sha_open_eq Let_def)+

lemma keeps_shape:
  "keeps (\<lambda>w. seller_shape (w_seller w) = replicate (par_R P) (par_L P) \<and>
     buyer_shape (w_buyer w) = replicate (par_R P) (par_L P)) f \<Longrightarrow> keeps (well_shaped P) f"
  by (simp add: well_shaped_def [abs_def])

lemma sound_openings [sound_rules]:
  assumes "\<And>t. fst (f t) \<noteq> Inl Undefined"
  shows "sound (well_shaped P) (on_d1 j i f)" "sound (well_shaped P) (on_d2 j i f)"
    "j < par_R P \<Longrightarrow> i < par_L P \<Longrightarrow> sound (well_shaped P) (on_key j i f)"
  by (simp_all add: soundI keeps_shape shape.keeps_openings openings_defined [OF assms])

lemma sound_rows:
  "sound (well_shaped P) (\<lambda>w. case findRoots cp L bits j (w_seller w) of (r, s) \<Rightarrow> (r, w\<lparr>w_seller := s\<rparr>))"
  "j < par_R P \<Longrightarrow>
    sound (well_shaped P) (\<lambda>w. case encryptRoots cp (par_L P) j (w_seller w) of (r, s) \<Rightarrow> (r, w\<lparr>w_seller := s\<rparr>))"
  using findRoots_sound encryptRoots_sound [of j "par_R P" "par_L P" cp]
  by (auto simp: sound_def well_shaped_def keeps_shape shape.keeps_rows split: prod.splits) (metis fst_conv)+

lemma sound_steps [sound_rules]:
  "sound (well_shaped P) (on_seller (setupCommit L j))"
  "sound (well_shaped P) (\<lambda>w. on_seller (acceptSquares j (y w)) w)"
  "sound (well_shaped P) (on_buyer (genSquares L x j))"
  "sound (well_shaped P) (on_buyer (pickSubset sh L j))"
  by (rule soundI [OF keeps_shape], rule shape.keeps_rows, simp add: on_seller_def on_buyer_def)+

lemma commit_phase_sound: "j < par_R P \<Longrightarrow> sound (well_shaped P) (commit_phase E P dw j)"
  unfolding commit_phase_def commit_roots_def Let_def by (intro sound_rules sound_rows) (simp_all add: sha_defined)

lemma check_root_sound:
  assumes "j < par_R P" "i < par_L P"
  shows "sound (well_shaped P) (check_root cp j i c)"
proof -
  have key: "sound (well_shaped P) (\<lambda>w. (sum_then (at_vector (bu_single_buyers (w_buyer w)) j) (\<lambda>b.
      sum_then (at_vector (sb_keys_commits b) i) (\<lambda>k. Inr (rcv_m k))), w))"
    using assms well_shaped_vectors by (auto simp: sound_def keeps_def at_vector_def)
  have root: "sound (well_shaped P) (\<lambda>w. (verifyRoot cp j i k c' (w_buyer w), w))" for k c'
    by (auto simp: sound_def keeps_def verifyRoot_def dec_vector_def dec_key_def sum_then_def split: option.splits sum.splits if_splits)
  have no: "sound (well_shaped P) (throw (ProtocolException t))" for t by (simp add: sound_def keeps_def)
  show ?thesis unfolding check_root_def using assms
    by (auto intro!: sound_rules key root no simp: sha_defined)
qed

lemma acceptSubset_defined: "acceptSubset s j is vs \<noteq> Inl Undefined"
proof (induction s j "is" vs rule: acceptSubset.induct)
  case (1 s j i "is" v vs)
  then show ?case by (auto simp: which_root_def sum_then_def Let_def split: sum.splits if_splits)
qed simp_all

lemma check_phase_sound:
  assumes j: "j < par_R P"
  shows "sound (well_shaped P) (check_phase E P dw j)"
proof -
  have subset: "sound (well_shaped P) (\<lambda>w. (acceptSubset (w_seller w) j is vs, w))" for "is" vs
    by (simp add: sound_def keeps_def acceptSubset_defined)
  have both: "sound (well_shaped P) (open_both cp j is i)" for cp "is" i
    unfolding open_both_def by (auto intro!: sound_rules simp: sha_defined)
  have roots: "sound (well_shaped P) (for_each [0..<par_L P div 2] (\<lambda>i. check_root cp j (is ! i) (cs ! i)))"
    if "\<not> card (set is) \<noteq> par_L P div 2" "\<not> (\<exists>ind\<in>set is. par_L P \<le> ind)" for cp "is" cs
  proof (intro sound_for_each check_root_sound [OF j])
    fix i assume "i \<in> set [0..<par_L P div 2]"
    then have "i < length is" using that(1) card_length [of "is"] by simp
    then have "is ! i \<in> set is" by simp
    then show "is ! i < par_L P" using that(2) not_le by blast
  qed
  show ?thesis unfolding check_phase_def Let_def
    apply (rule sound_seq [OF sound_steps(4)])
    apply (rule sound_and_then [OF sound_basic(2)])+
    apply (rule sound_guard, simp)
    apply (rule sound_guard, simp)
    apply (rule sound_and_then [OF subset])
    apply (rule sound_seq)
     apply (erule (1) roots)
    by (rule sound_for_each, rule both)
qed

section \<open>Properties\<close>

text \<open>
  C12: the exchange never changes what was negotiated: whatever the libraries, the server and the random
  numbers do, and however it ends, the modulus, the factors of the seller, the price, the address and
  the square root object are those the parties came with.
\<close>

theorem exchange_keeps_terms:
  "case sell_exec E P dw w of None \<Rightarrow> True | Some (r, w') \<Rightarrow> negotiated w' = negotiated w"
proof (cases "sell_exec E P dw w")
  case (Some res)
  obtain r w' where res: "res = (r, w')" by (cases res)
  show ?thesis using terms.exec_view [OF Some [unfolded res]] Some by (simp add: res negotiated_def)
qed simp



end
