(* ===== verification/Round_Soundness.thy ===== *)
theory Round_Soundness
  imports Exchange
begin

text \<open>
  What the buyer knows when a round of the second cut-and-choose of main/sell_information.cpp has
  returned, whatever the state of the seller: the openings of the subset and of the other columns.
\<close>

section \<open>What one opening checks\<close>

definition key_at :: "buyer \<Rightarrow> nat \<Rightarrow> nat \<Rightarrow> sha_receiver" where
  "key_at b j i = sb_keys_commits (bu_single_buyers b ! j) ! i"

text \<open>The key of the column was opened, and one of the two ciphertexts, and it holds the buyer's root.\<close>

definition root_named :: "cryptopp \<Rightarrow> buyer \<Rightarrow> nat \<Rightarrow> nat \<Rightarrow> bool" where
  "root_named cp b j i \<longleftrightarrow> sha_checked cp (key_at b j i) \<and>
     (\<exists>c\<in>{bu_d1 b j i, bu_d2 b j i}. sha_checked cp c \<and>
        (\<exists>x. dec_vector cp (rcv_m (key_at b j i)) (rcv_m c) = Inr x \<and> decode_bytes cp x = bu_x b j i))"

definition both_opened :: "cryptopp \<Rightarrow> buyer \<Rightarrow> nat \<Rightarrow> nat \<Rightarrow> bool" where
  "both_opened cp b j i \<longleftrightarrow> sha_checked cp (bu_d1 b j i) \<and> sha_checked cp (bu_d2 b j i)"

text \<open>Two buyers that agree on a column, and those that differ at most in one.\<close>

definition same_column :: "nat \<Rightarrow> nat \<Rightarrow> buyer \<Rightarrow> buyer \<Rightarrow> bool" where
  "same_column j i b b' \<longleftrightarrow> key_at b' j i = key_at b j i \<and> bu_d1 b' j i = bu_d1 b j i \<and>
     bu_d2 b' j i = bu_d2 b j i \<and> bu_x b' j i = bu_x b j i"

definition one_column :: "nat \<Rightarrow> nat \<Rightarrow> buyer \<Rightarrow> buyer \<Rightarrow> bool" where
  "one_column j i b b' \<longleftrightarrow> bu_x b' = bu_x b \<and> bu_indices b' = bu_indices b \<and>
     (\<forall>j' i'. (j', i') \<noteq> (j, i) \<longrightarrow> same_column j' i' b b')"

lemma same_column_props:
  "same_column j i b b' \<Longrightarrow> root_named cp b' j i = root_named cp b j i"
  "same_column j i b b' \<Longrightarrow> both_opened cp b' j i = both_opened cp b j i"
  "same_column j i b b" "same_column j i b b' \<Longrightarrow> same_column j i b' b'' \<Longrightarrow> same_column j i b b''"
  by (simp_all add: same_column_def root_named_def both_opened_def)

lemma one_column_trans: "one_column j i b b' \<Longrightarrow> one_column j i b' b'' \<Longrightarrow> one_column j i b b''"
  unfolding one_column_def by (metis same_column_props(4))

lemma opened_checked:
  assumes "sha_open cp (s, r) = (Inr u, s', r')"
  shows "sha_checked cp r'" "s' = s" "rcv_com r' = rcv_com r"
  using assms by (auto simp: sha_open_eq sha_checked_def sha_ready_def Let_def split: if_splits)

lemma on_d1_opens:
  assumes "on_d1 j i (sha_open cp) w = (Inr u, w')"
  shows "sha_checked cp (bu_d1 (w_buyer w') j i)" "one_column j i (w_buyer w) (w_buyer w')"
    "key_at (w_buyer w') = key_at (w_buyer w)" "bu_d2 (w_buyer w') = bu_d2 (w_buyer w)"
  using assms opened_checked(1)
  by (auto simp: on_d1_def one_column_def same_column_def key_at_def fun_eq_iff split: prod.splits)

lemma on_d2_opens:
  assumes "on_d2 j i (sha_open cp) w = (Inr u, w')"
  shows "sha_checked cp (bu_d2 (w_buyer w') j i)" "one_column j i (w_buyer w) (w_buyer w')"
    "key_at (w_buyer w') = key_at (w_buyer w)" "bu_d1 (w_buyer w') = bu_d1 (w_buyer w)"
  using assms opened_checked(1)
  by (auto simp: on_d2_def one_column_def same_column_def key_at_def fun_eq_iff split: prod.splits)

lemma on_key_checks:
  assumes "on_key j i (sha_open cp) w = (Inr u, w')"
  shows "sha_checked cp (key_at (w_buyer w') j i)" "one_column j i (w_buyer w) (w_buyer w')"
    "j < length (bu_single_buyers (w_buyer w'))" "i < length (sb_keys_commits (bu_single_buyers (w_buyer w') ! j))"
proof -
  let ?as = "se_single_sellers (w_seller w)" and ?bs = "bu_single_buyers (w_buyer w)"
  obtain as bs where run: "at_index j (on_keys (at_index i (sha_open cp))) (?as, ?bs) = (Inr u, as, bs)"
    and w': "w_buyer w' = (w_buyer w)\<lparr>bu_single_buyers := bs\<rparr>"
    using assms by (auto simp: on_key_def split: prod.splits)
  obtain s r where j: "j < length ?bs" and i: "i < length (sb_keys_commits (?bs ! j))"
    and o: "sha_open cp (sl_keys_commits (?as ! j) ! i, sb_keys_commits (?bs ! j) ! i) = (Inr u, s, r)"
    and bs: "bs = ?bs[j := (?bs ! j)\<lparr>sb_keys_commits := (sb_keys_commits (?bs ! j))[i := r]\<rparr>]"
    using run by (auto simp: at_index_Inr on_parts_Inr)
  show "sha_checked cp (key_at (w_buyer w') j i)" "j < length (bu_single_buyers (w_buyer w'))"
    "i < length (sb_keys_commits (bu_single_buyers (w_buyer w') ! j))"
    using opened_checked(1) [OF o] j i by (simp_all add: key_at_def w' bs)
  show "one_column j i (w_buyer w) (w_buyer w')"
    using j i by (auto simp: one_column_def same_column_def key_at_def w' bs nth_list_update)
qed

section \<open>The columns of a round\<close>

lemma check_root_checks:
  assumes "check_root cp j i c w = (Inr u, w')"
  shows "root_named cp (w_buyer w') j i" "one_column j i (w_buyer w) (w_buyer w')"
proof -
  obtain w1 where key: "on_key j i (sha_open cp) w = (Inr (), w1)"
    and rest: "and_then
        (if c = 1 then seq (on_d1 j i (sha_open cp)) (fetch (\<lambda>w. rcv_m (bu_d1 (w_buyer w) j i)))
         else if c = 2 then seq (on_d2 j i (sha_open cp)) (fetch (\<lambda>w. rcv_m (bu_d2 (w_buyer w) j i)))
         else throw (ProtocolException ''matching roots to values didn't work''))
        (\<lambda>c. \<lambda>w. (verifyRoot cp j i (rcv_m (key_at (w_buyer w1) j i)) c (w_buyer w), w)) w1 = (Inr u, w')"
    using assms on_key_checks(3,4)
    by (fastforce simp: check_root_def seq_Inr and_then_Inr sum_then_Inr at_vector_def key_at_def split: if_splits)
  note k = on_key_checks [OF key]
  obtain d where d: "d \<in> {bu_d1 (w_buyer w') j i, bu_d2 (w_buyer w') j i}" "sha_checked cp d"
      "verifyRoot cp j i (rcv_m (key_at (w_buyer w1) j i)) (rcv_m d) (w_buyer w') = Inr u"
    and o: "one_column j i (w_buyer w1) (w_buyer w')" "key_at (w_buyer w') = key_at (w_buyer w1)"
  proof (cases "c = 1")
    case True
    then have 1: "on_d1 j i (sha_open cp) w1 = (Inr (), w')"
      and v: "verifyRoot cp j i (rcv_m (key_at (w_buyer w1) j i)) (rcv_m (bu_d1 (w_buyer w') j i)) (w_buyer w') = Inr u"
      using rest by (auto simp: seq_Inr and_then_Inr)
    show ?thesis by (rule that [OF _ on_d1_opens(1) [OF 1] v on_d1_opens(2,3) [OF 1]]) simp
  next
    case False
    then have 2: "on_d2 j i (sha_open cp) w1 = (Inr (), w')"
      and v: "verifyRoot cp j i (rcv_m (key_at (w_buyer w1) j i)) (rcv_m (bu_d2 (w_buyer w') j i)) (w_buyer w') = Inr u"
      using rest by (auto simp: seq_Inr and_then_Inr split: if_splits)
    show ?thesis by (rule that [OF _ on_d2_opens(1) [OF 2] v on_d2_opens(2,3) [OF 2]]) simp
  qed
  show "root_named cp (w_buyer w') j i"
    using d o(2) k(1) by (auto simp: root_named_def verifyRoot_def sum_then_Inr Let_def split: if_splits)
  show "one_column j i (w_buyer w) (w_buyer w')" by (rule one_column_trans [OF k(2) o(1)])
qed

lemma open_both_opens:
  assumes "open_both cp j is i w = (Inr u, w')"
  shows "i \<notin> set is \<longrightarrow> both_opened cp (w_buyer w') j i"
    "if i \<in> set is then w' = w else one_column j i (w_buyer w) (w_buyer w')"
proof -
  have "both_opened cp (w_buyer w') j i \<and> one_column j i (w_buyer w) (w_buyer w')" if "i \<notin> set is"
  proof -
    have "seq (on_d1 j i (sha_open cp)) (on_d2 j i (sha_open cp)) w = (Inr u, w')"
      using assms that unfolding open_both_def by presburger
    then obtain w1 where 1: "on_d1 j i (sha_open cp) w = (Inr (), w1)" and 2: "on_d2 j i (sha_open cp) w1 = (Inr u, w')"
      unfolding seq_Inr by blast
    show ?thesis
      using on_d1_opens [OF 1] on_d2_opens [OF 2] one_column_trans by (auto simp: both_opened_def)
  qed
  then show "i \<notin> set is \<longrightarrow> both_opened cp (w_buyer w') j i"
    "if i \<in> set is then w' = w else one_column j i (w_buyer w) (w_buyer w')"
    using assms by (auto simp: open_both_def)
qed

lemma check_loop:
  assumes "for_each is (\<lambda>i. check_root cp j (f i) (g i)) w = (Inr u, w')"
  shows "(\<forall>i\<in>set is. root_named cp (w_buyer w') j (f i)) \<and> bu_x (w_buyer w') = bu_x (w_buyer w) \<and>
    bu_indices (w_buyer w') = bu_indices (w_buyer w) \<and>
    (\<forall>j' i. j' \<noteq> j \<longrightarrow> same_column j' i (w_buyer w) (w_buyer w'))"
proof -
  define I where "I xs v \<longleftrightarrow> (\<forall>i\<in>set xs. root_named cp (w_buyer v) j (f i)) \<and> bu_x (w_buyer v) = bu_x (w_buyer w) \<and>
    bu_indices (w_buyer v) = bu_indices (w_buyer w) \<and>
    (\<forall>j' i. j' \<noteq> j \<longrightarrow> same_column j' i (w_buyer w) (w_buyer v))" for xs and v :: world
  have "I is w'"
  proof (rule for_each_partial [where I = I])
    show "for_each is (\<lambda>i. check_root cp j (f i) (g i)) w = (Inr (), w')" using assms by simp
    show "I [] w" by (simp add: I_def same_column_props)
    fix xs x v v' assume I: "I xs v" and run: "check_root cp j (f x) (g x) v = (Inr (), v')"
    note c = check_root_checks [OF run]
    have "root_named cp (w_buyer v') j (f i)" if "i \<in> set xs" for i
    proof (cases "f i = f x")
      case False
      then have "same_column j (f i) (w_buyer v) (w_buyer v')" using c(2) by (simp add: one_column_def)
      then show ?thesis using I that by (simp add: I_def same_column_props(1))
    qed (use c(1) in simp)
    moreover have "same_column j' i (w_buyer w) (w_buyer v')" if "j' \<noteq> j" for j' i
      using I c(2) that same_column_props(4) unfolding I_def one_column_def by blast
    ultimately show "I (xs @ [x]) v'" using I c by (simp add: I_def one_column_def)
  qed
  then show ?thesis by (simp add: I_def)
qed

lemma open_loop:
  assumes "for_each ks (open_both cp j is) w = (Inr u, w')"
  shows "(\<forall>i\<in>set ks - set is. both_opened cp (w_buyer w') j i) \<and>
    (\<forall>i\<in>set is. same_column j i (w_buyer w) (w_buyer w')) \<and> bu_x (w_buyer w') = bu_x (w_buyer w) \<and>
    bu_indices (w_buyer w') = bu_indices (w_buyer w) \<and>
    (\<forall>j' i. j' \<noteq> j \<longrightarrow> same_column j' i (w_buyer w) (w_buyer w'))"
proof -
  define I where "I xs v \<longleftrightarrow> (\<forall>i\<in>set xs - set is. both_opened cp (w_buyer v) j i) \<and>
    (\<forall>i\<in>set is. same_column j i (w_buyer w) (w_buyer v)) \<and> bu_x (w_buyer v) = bu_x (w_buyer w) \<and>
    bu_indices (w_buyer v) = bu_indices (w_buyer w) \<and>
    (\<forall>j' i. j' \<noteq> j \<longrightarrow> same_column j' i (w_buyer w) (w_buyer v))" for xs and v :: world
  have "I ks w'"
  proof (rule for_each_partial [where I = I])
    show "for_each ks (open_both cp j is) w = (Inr (), w')" using assms by simp
    show "I [] w" by (simp add: I_def same_column_props)
    fix xs x v v' assume I: "I xs v" and run: "open_both cp j is x v = (Inr (), v')"
    note c = open_both_opens [OF run]
    show "I (xs @ [x]) v'"
    proof (cases "x \<in> set is")
      case True
      then show ?thesis using I c(2) by (simp add: I_def insert_Diff_if)
    next
      case False
      then have o: "one_column j x (w_buyer v) (w_buyer v')" "both_opened cp (w_buyer v') j x" using c by simp_all
      have "same_column j' i (w_buyer v) (w_buyer v')" if "(j', i) \<noteq> (j, x)" for j' i
        using o(1) that by (simp add: one_column_def)
      then have "both_opened cp (w_buyer v') j i" if "i \<in> set xs - set is" for i
        using I o(2) that same_column_props(2) [of j i "w_buyer v" "w_buyer v'" cp]
        by (cases "i = x") (simp_all add: I_def)
      moreover have "same_column j' i (w_buyer w) (w_buyer v')"
        if "same_column j' i (w_buyer w) (w_buyer v)" "(j', i) \<noteq> (j, x)" for j' i
        using o(1) that same_column_props(4) unfolding one_column_def by blast
      moreover have "(j, i) \<noteq> (j, x)" if "i \<in> set is" for i using that False by auto
      ultimately show ?thesis using I o by (simp add: I_def one_column_def insert_Diff_if)
    qed
  qed
  then show ?thesis by (simp add: I_def)
qed

section \<open>A round\<close>

lemma commit_phase_rows:
  assumes "commit_phase E P dw j w = (Inr u, w')"
  shows "(\<forall>i<par_L P. bu_x (w_buyer w') j i = dw_x dw j i) \<and>
    (\<forall>j' i. j' \<noteq> j \<longrightarrow> same_column j' i (w_buyer w) (w_buyer w'))"
proof -
  let ?b = "genSquares (par_L P) (dw_x dw j) j (w_buyer w)"
  obtain s where run: "for_each [0..<par_L P] (commit_roots (lib E) dw j) (w\<lparr>w_buyer := ?b, w_seller := s\<rparr>) = (Inr u, w')"
    using assms by (auto simp: commit_phase_def seq_Inr on_buyer_def on_seller_def Let_def split: prod.splits)
  have "bu_x (w_buyer w') = bu_x ?b \<and> bu_single_buyers (w_buyer w') = bu_single_buyers ?b \<and>
      (\<forall>j' i. j' \<noteq> j \<longrightarrow> bu_d1 (w_buyer w') j' i = bu_d1 ?b j' i \<and> bu_d2 (w_buyer w') j' i = bu_d2 ?b j' i)"
    using run by (auto simp: commit_roots_run)
  then show ?thesis by (auto simp: genSquares_eq same_column_def key_at_def)
qed

text \<open>The subset that the buyer draws for a round.\<close>

definition subset_of :: "params \<Rightarrow> sell_draw \<Rightarrow> nat \<Rightarrow> nat list" where
  "subset_of P dw j = take (par_L P div 2) (dw_shuffle dw j [0..<par_L P])"

definition row_checked :: "cryptopp \<Rightarrow> params \<Rightarrow> sell_draw \<Rightarrow> buyer \<Rightarrow> nat \<Rightarrow> bool" where
  "row_checked cp P dw b j \<longleftrightarrow>
     card (set (subset_of P dw j)) = par_L P div 2 \<and> set (subset_of P dw j) \<subseteq> {..<par_L P} \<and>
     (\<forall>i<par_L P. bu_x b j i = dw_x dw j i \<and>
        (if i \<in> set (subset_of P dw j) then root_named cp b j i else both_opened cp b j i))"

lemma check_phase_parts:
  assumes "check_phase E P dw j w = (Inr u, w')"
  shows "\<exists>v cs. card (set (subset_of P dw j)) = par_L P div 2 \<and> \<not> (\<exists>ind\<in>set (subset_of P dw j). par_L P \<le> ind) \<and>
    for_each [0..<par_L P div 2] (\<lambda>i. check_root (lib E) j (subset_of P dw j ! i) (cs ! i))
      (w\<lparr>w_buyer := pickSubset (dw_shuffle dw j) (par_L P) j (w_buyer w)\<rparr>) = (Inr (), v) \<and>
    for_each [0..<par_L P] (open_both (lib E) j (subset_of P dw j)) v = (Inr u, w')"
  using assms
  by (simp add: check_phase_def seq_Inr and_then_Inr on_buyer_def Let_def pickSubset_def getSubsetIndices_def
      subset_of_def split: if_splits) blast

lemma check_phase_rows:
  assumes "check_phase E P dw j w = (Inr u, w')" and x: "\<forall>i<par_L P. bu_x (w_buyer w) j i = dw_x dw j i"
  shows "row_checked (lib E) P dw (w_buyer w') j \<and>
    (\<forall>j' i. j' \<noteq> j \<longrightarrow> same_column j' i (w_buyer w) (w_buyer w'))"
proof -
  let ?is = "subset_of P dw j" and ?cp = "lib E"
  let ?v = "w\<lparr>w_buyer := pickSubset (dw_shuffle dw j) (par_L P) j (w_buyer w)\<rparr>"
  obtain v1 cs where size: "card (set ?is) = par_L P div 2" and range: "\<not> (\<exists>ind\<in>set ?is. par_L P \<le> ind)"
    and c: "for_each [0..<par_L P div 2] (\<lambda>i. check_root ?cp j (?is ! i) (cs ! i)) ?v = (Inr (), v1)"
    and o: "for_each [0..<par_L P] (open_both ?cp j ?is) v1 = (Inr u, w')"
    using check_phase_parts [OF assms(1)] by blast
  note cl = check_loop [OF c] and ol = open_loop [OF o]
  have len: "length ?is = par_L P div 2"
  proof (rule antisym)
    show "length ?is \<le> par_L P div 2" by (simp add: subset_of_def)
    show "par_L P div 2 \<le> length ?is" using card_length [of ?is] unfolding size .
  qed
  have named: "root_named ?cp (w_buyer w') j i" if i: "i \<in> set ?is" for i
  proof -
    obtain k where "k < par_L P div 2" "?is ! k = i" using i unfolding in_set_conv_nth len by blast
    then have "root_named ?cp (w_buyer v1) j i" using cl by auto
    moreover have "same_column j i (w_buyer v1) (w_buyer w')" using ol i by simp
    ultimately show ?thesis by (simp add: same_column_props(1))
  qed
  have "both_opened ?cp (w_buyer w') j i" if "i < par_L P" "i \<notin> set ?is" for i
    using ol that by simp
  moreover have "bu_x (w_buyer w') j i = dw_x dw j i" if "i < par_L P" for i
    using cl ol x that by (simp add: pickSubset_def Let_def)
  ultimately have "row_checked ?cp P dw (w_buyer w') j"
    using named size range by (auto simp: row_checked_def not_le)
  moreover have "same_column j' i (w_buyer w) (w_buyer w')" if "j' \<noteq> j" for j' i
  proof -
    have "same_column j' i (w_buyer w) (w_buyer ?v)"
      by (simp add: same_column_def key_at_def pickSubset_def Let_def)
    moreover have "same_column j' i (w_buyer ?v) (w_buyer v1)" using cl that by simp
    moreover have "same_column j' i (w_buyer v1) (w_buyer w')" using ol that by simp
    ultimately show ?thesis using same_column_props(4) by metis
  qed
  ultimately show ?thesis by blast
qed

lemma sell_round_rows:
  assumes "sell_round E P dw j w = (Inr u, w')"
  shows "row_checked (lib E) P dw (w_buyer w') j \<and>
    (\<forall>j' i. j' \<noteq> j \<longrightarrow> same_column j' i (w_buyer w) (w_buyer w'))"
proof -
  obtain v where 1: "commit_phase E P dw j w = (Inr (), v)" and 2: "check_phase E P dw j v = (Inr u, w')"
    using assms unfolding sell_round_def seq_Inr by blast
  note c = commit_phase_rows [OF 1]
  show ?thesis using check_phase_rows [OF 2] c same_column_props(4) by blast
qed

lemma row_checked_same:
  assumes "row_checked cp P dw b j" "\<And>i. same_column j i b b'"
  shows "row_checked cp P dw b' j"
  using assms by (simp add: row_checked_def same_column_props(1,2) [OF assms(2)]) (use assms(2) in \<open>simp add: same_column_def\<close>)

section \<open>All rounds\<close>

lemma rounds_rows:
  assumes "for_each [0..<R] (sell_round E P dw) w = (Inr u, w')"
  shows "\<forall>j<R. row_checked (lib E) P dw (w_buyer w') j"
proof -
  define I where "I xs v \<longleftrightarrow> (\<forall>j\<in>set xs. row_checked (lib E) P dw (w_buyer v) j)" for xs and v :: world
  have "I [0..<R] w'"
  proof (rule for_each_partial [where I = I])
    show "for_each [0..<R] (sell_round E P dw) w = (Inr (), w')" using assms by simp
    show "I [] w" by (simp add: I_def)
    fix xs x v v' assume I: "I xs v" and run: "sell_round E P dw x v = (Inr (), v')"
    note r = sell_round_rows [OF run]
    have "row_checked (lib E) P dw (w_buyer v') j" if "j \<in> set xs" for j
    proof (cases "j = x")
      case False
      show ?thesis by (rule row_checked_same [of _ _ _ "w_buyer v"]) (use I r that False in \<open>simp_all add: I_def\<close>)
    qed (use r in simp)
    then show "I (xs @ [x]) v'" using r by (simp add: I_def)
  qed
  then show ?thesis by (simp add: I_def)
qed

section \<open>Properties\<close>

text \<open>
  C4: what the second cut-and-choose proves to the buyer. Whatever the seller's state was, when all rounds
  have returned, then in every row the buyer opened half of the columns; in each of them the
  key and one ciphertext match the digests received before, and that ciphertext decrypts under that
  key to the root the buyer drew; in every other column both ciphertexts match their digests.
\<close>

theorem rounds_sound:
  assumes "for_each [0..<par_R P] (sell_round E P dw) w = (Inr (), w')" and "j < par_R P"
  shows "card (set (subset_of P dw j)) = par_L P div 2 \<and>
    (\<forall>i\<in>set (subset_of P dw j). i < par_L P \<and> sha_checked (lib E) (key_at (w_buyer w') j i) \<and>
       (\<exists>c\<in>{bu_d1 (w_buyer w') j i, bu_d2 (w_buyer w') j i}. sha_checked (lib E) c \<and>
          (\<exists>x. dec_vector (lib E) (rcv_m (key_at (w_buyer w') j i)) (rcv_m c) = Inr x \<and>
             decode_bytes (lib E) x = dw_x dw j i))) \<and>
    (\<forall>i<par_L P. i \<notin> set (subset_of P dw j) \<longrightarrow>
       sha_checked (lib E) (bu_d1 (w_buyer w') j i) \<and> sha_checked (lib E) (bu_d2 (w_buyer w') j i))"
proof -
  have r: "row_checked (lib E) P dw (w_buyer w') j" using rounds_rows [OF assms(1)] assms(2) by simp
  have "i < par_L P \<and> root_named (lib E) (w_buyer w') j i \<and> bu_x (w_buyer w') j i = dw_x dw j i"
    if "i \<in> set (subset_of P dw j)" for i
    using r that by (auto simp: row_checked_def)
  moreover have "both_opened (lib E) (w_buyer w') j i" if "i < par_L P" "i \<notin> set (subset_of P dw j)" for i
    using r that by (auto simp: row_checked_def)
  ultimately show ?thesis using r unfolding root_named_def both_opened_def row_checked_def by metis
qed

text \<open>A world for the witness of a round with two columns, the first of them in the subset.\<close>

definition ref_two :: params where
  "ref_two = \<lparr>par_T = 1, par_K = 3, par_L = 2, par_R = 1\<rparr>"

definition ref_pair :: "single_seller \<Rightarrow> single_buyer \<Rightarrow> world" where
  "ref_pair a b = (let m = replicate AES_LENGTH 0; k = \<lparr>snd_m = m, snd_seed = [], snd_com = []\<rparr>;
     r = \<lparr>rcv_open_verified = False, rcv_m = [], rcv_seed = [], rcv_com = compute_sha ref_cryptopp m []\<rparr>
   in ref_world\<lparr>w_seller := (w_seller ref_world)\<lparr>se_single_sellers := [a\<lparr>sl_keys_commits := [k, k]\<rparr>]\<rparr>,
        w_buyer := (w_buyer ref_world)\<lparr>bu_single_buyers := [b\<lparr>sb_keys_commits := [r, r]\<rparr>]\<rparr>\<rparr>)"

lemma ref_round: "\<exists>w'. for_each [0..<par_R ref_two] (sell_round (ref_setting a b) ref_two ref_draw) (ref_pair a b) = (Inr (), w')"
proof -
  have two: "i < 2 \<Longrightarrow> i = 0 \<or> i = 1" for i :: nat by auto
  have l: "lib (ref_setting a b) = ref_cryptopp" by (simp add: ref_setting_def)
  have "keys_ready ref_cryptopp ref_two 0 (ref_pair a b)"
    by (auto simp: keys_ready_def ref_pair_def Let_def ref_two_def sha_ready_def same_prefix_iff dest!: two)
  moreover have "round_draws ref_cryptopp ref_two ref_draw 7 11 0"
    using root_setting_ref by (simp add: round_draws_def ref_two_def ref_draw_def) auto
  ultimately have "\<exists>w'. sell_round (ref_setting a b) ref_two ref_draw 0 (ref_pair a b) = (Inr (), w')"
    using sell_round_run [of "ref_setting a b" ref_two ref_draw 7 11 0 "ref_pair a b"] ref_laws
    by (fastforce simp: l ref_pair_def ref_world_def ref_seller_def ref_buyer_def Let_def)
  then show ?thesis by (auto simp: ref_two_def)
qed

theorem rounds_sound_witness:
  "\<forall>a b. \<exists>w'. sha_checked ref_cryptopp (key_at (w_buyer w') 0 0) \<and>
    sha_checked ref_cryptopp (bu_d1 (w_buyer w') 0 1) \<and> sha_checked ref_cryptopp (bu_d2 (w_buyer w') 0 1) \<and>
    for_each [0..<par_R ref_two] (sell_round (ref_setting a b) ref_two ref_draw) (ref_pair a b) = (Inr (), w')"
proof (intro allI)
  fix a b
  obtain w' where run: "for_each [0..<par_R ref_two] (sell_round (ref_setting a b) ref_two ref_draw) (ref_pair a b) = (Inr (), w')"
    using ref_round by blast
  have s: "subset_of ref_two ref_draw 0 = [0]" by (simp add: subset_of_def ref_two_def ref_draw_def upt_rec)
  have l: "lib (ref_setting a b) = ref_cryptopp" by (simp add: ref_setting_def)
  have "0 < par_R ref_two" by (simp add: ref_two_def)
  from rounds_sound [OF run this] run
  show "\<exists>w'. sha_checked ref_cryptopp (key_at (w_buyer w') 0 0) \<and>
    sha_checked ref_cryptopp (bu_d1 (w_buyer w') 0 1) \<and> sha_checked ref_cryptopp (bu_d2 (w_buyer w') 0 1) \<and>
    for_each [0..<par_R ref_two] (sell_round (ref_setting a b) ref_two ref_draw) (ref_pair a b) = (Inr (), w')"
    unfolding s l by (intro exI [of _ w']) (simp add: ref_two_def)
qed

end
