(* ===== verification/Deal.thy ===== *)
theory Deal
  imports Settlement
begin

text \<open>
  An abstract account of how the exchange ends for the buyer. The waiting loop of
  main/sell_information.cpp implements it (Threads).
\<close>

section \<open>The abstract account\<close>

text \<open>
  A deal over the modulus \<open>n\<close> is open, or the buyer has two numbers whose product is \<open>n\<close>, or the
  payment was taken back, or the program has crashed. The calls made only grow.
\<close>

datatype settlement = Open | Sold int int | Refunded | Crashed exn

record deal =
  dl_status :: settlement
  dl_calls :: "rpc_call list"

inductive settle :: "int \<Rightarrow> rpc \<Rightarrow> deal \<Rightarrow> deal \<Rightarrow> bool" for n :: int and env :: rpc where
  talk: "settle n env \<lparr>dl_status = Open, dl_calls = cs\<rparr> \<lparr>dl_status = Open, dl_calls = cs @ ds\<rparr>"
| sell: "p * q = n \<Longrightarrow> settle n env \<lparr>dl_status = Open, dl_calls = cs\<rparr> \<lparr>dl_status = Sold p q, dl_calls = cs\<rparr>"
| refund: "redeemed env cs \<Longrightarrow> settle n env \<lparr>dl_status = Open, dl_calls = cs\<rparr> \<lparr>dl_status = Refunded, dl_calls = cs\<rparr>"
| crash: "settle n env \<lparr>dl_status = Open, dl_calls = cs\<rparr> \<lparr>dl_status = Crashed e, dl_calls = cs @ ds\<rparr>"

inductive_cases settleE: "settle n env d d'"

inductive_simps settle_closed:
  "settle n env \<lparr>dl_status = Sold p q, dl_calls = cs\<rparr> d" "settle n env \<lparr>dl_status = Refunded, dl_calls = cs\<rparr> d"
  "settle n env \<lparr>dl_status = Crashed e, dl_calls = cs\<rparr> d"

lemma closed_deal_final: "dl_status d \<noteq> Open \<Longrightarrow> \<not> settle n env d d'"
  by (cases d; cases "dl_status d") (simp_all add: settle_closed)

text \<open>What is true of every deal that can be reached.\<close>

definition deal_inv :: "int \<Rightarrow> rpc \<Rightarrow> deal \<Rightarrow> bool" where
  "deal_inv n env d \<longleftrightarrow> (case dl_status d of Sold p q \<Rightarrow> p * q = n | Refunded \<Rightarrow> redeemed env (dl_calls d) | _ \<Rightarrow> True)"

lemma deal_inv_step: "settle n env d d' \<Longrightarrow> deal_inv n env d'"
  by (erule settleE) (simp_all add: deal_inv_def)

end
