(* ===== verification/Threads.thy ===== *)
theory Threads
  imports Deal Invariants
begin

text \<open>
  The waiting loop of main/sell_information.cpp with its two threads step by step: each call to the
  server is a step of its own, so the calls of the threads interleave, and the answer to a call may
  depend on what the other thread has asked in between. Between two calls a thread reads nothing that
  the other writes: the signatures and the factors belong to one, the time locks to both for reading.
\<close>

section \<open>The threads in steps\<close>

text \<open>\<open>get_signature\<close> asks twice: for the transaction, and for its signatures.\<close>

definition find_transaction :: "rpc \<Rightarrow> (world, unit) comp" where
  "find_transaction env =
     and_then (\<lambda>w. rpc_call (rpc_bool env) (WaitForTransactionByOutput (bu_seller_address (w_buyer w)) 6) w) (\<lambda>res.
     throw_if (\<not> res) (ProtocolException ''wait for transaction by output failed''))"

definition read_signatures :: "cryptopp \<Rightarrow> rpc \<Rightarrow> params \<Rightarrow> (world, unit) comp" where
  "read_signatures cp env P =
     and_then (\<lambda>w. rpc_call (rpc_pairs env) (GetSignatures (bu_seller_address (w_buyer w)) (par_R P)) w) (\<lambda>signatures.
      seq (for_each [0..<par_R P] (\<lambda>i. and_then (from_sum (read_signature cp signatures i)) (\<lambda>sig.
             on_buyer (\<lambda>b. b\<lparr>bu_signatures := (bu_signatures b)(i := sig)\<rparr>))))
          (\<lambda>w. case factorise cp P (w_buyer w) of (r, b) \<Rightarrow> (r, w\<lparr>w_buyer := b\<rparr>)))"

lemma seq_and_then: "seq (and_then f g) h = and_then f (\<lambda>x. seq (g x) h)"
  by (rule ext) (simp add: seq_def and_then_def split: prod.split sum.split)

lemma get_signature_parts: "get_signature cp env P = seq (find_transaction env) (read_signatures cp env P)"
  unfolding get_signature_def find_transaction_def read_signatures_def seq_and_then ..

text \<open>One turn of the loop in \<open>solve_time_lock\<close>: open, compute the key, ask for the redemption.\<close>

definition redeem_once :: "cryptopp \<Rightarrow> rpc \<Rightarrow> params \<Rightarrow> nat \<Rightarrow> world \<Rightarrow> ((exn + bool) \<times> world) option" where
  "redeem_once cp env P j w =
     (case at_vector (bu_single_buyers (w_buyer w)) j of
        Inl e \<Rightarrow> Some (Inl e, w)
      | Inr b \<Rightarrow>
          (case force_open cp (sb_receiver b) of
             None \<Rightarrow> None
           | Some (Inl e) \<Rightarrow> Some (Inl e, w)
           | Some (Inr ds_bytes) \<Rightarrow>
               (case bits_to_integer cp ds_bytes of
                  Inl e \<Rightarrow> Some (Inl e, w)
                | Inr ds \<Rightarrow>
                    let d = ds * B_get_db (sb_share b);
                        d = d mod B_get_n (sb_share b)
                    in Some (rpc_call (rpc_bool env)
                         (RedeemTransaction (bu_T1 (w_buyer w)) (bu_original_T1_output_script (w_buyer w))
                            (integer2string cp d) (integer2string cp (x_coord (B_get_Q (sb_share b))))
                            (integer2string cp (y_coord (B_get_Q (sb_share b)))) (par_R P)) w))))"

lemma redeem_loop_once:
  "redeem_loop cp env P res (j # js) w =
     (if res then Some (Inr res, w) else
      case redeem_once cp env P j w of
        None \<Rightarrow> None
      | Some (Inl e, w) \<Rightarrow> Some (Inl e, w)
      | Some (Inr res, w) \<Rightarrow> redeem_loop cp env P res js w)"
  by (simp add: redeem_once_def Let_def split: option.split sum.split prod.split)

lemma redeem_once_result:
  assumes "redeem_once cp env P j w = Some (r, w')"
  shows "w_buyer w' = w_buyer w \<and> (\<exists>cs. w_calls w' = w_calls w @ cs) \<and> (r = Inr True \<longrightarrow> redeemed env (w_calls w'))"
proof -
  have "redeem_loop cp env P False [j] w = Some (r, w')"
    using assms by (cases r) (auto simp: redeem_loop_once simp del: redeem_loop.simps(2))
  then show ?thesis using redeem_loop_result [of cp env P False "[j]" w r w'] by simp
qed

section \<open>The machine\<close>

text \<open>
  Each thread is where it is between two calls: the lock still has executions to try, or sleeps for ever after
  all were refused. A thread sets its flag when it returns, and an exception that leaves a thread ends the whole
  program. The waiting thread leaves its loop when it sees a flag set, and then looks at the signature's flag
  first. An opening that does not come to an end blocks the thread of the lock only.
\<close>

datatype outcome = Waiting | SignatureFinished | TimeLockFinished | Terminated exn

datatype sig_pc = Finding | Reading | SigReturned

datatype lock_pc = Trying "nat list" | Asleep | LockReturned

record threads =
  th_sig :: sig_pc
  th_lock :: lock_pc
  th_signature_finished :: bool
  th_time_lock_finished :: bool
  th_outcome :: outcome
  th_world :: world

definition threads_start :: "params \<Rightarrow> world \<Rightarrow> threads" where
  "threads_start P w = \<lparr>th_sig = Finding, th_lock = Trying [0..<par_R P], th_signature_finished = False,
     th_time_lock_finished = False, th_outcome = Waiting, th_world = w\<rparr>"

text \<open>One step of either thread, whatever the loop has seen.\<close>

inductive thread_move :: "cryptopp \<Rightarrow> rpc \<Rightarrow> params \<Rightarrow> threads \<Rightarrow> threads \<Rightarrow> bool"
  for cp :: cryptopp and env :: rpc and P :: params where
  sig_finds:
    "\<lbrakk>th_sig s = Finding; find_transaction env (th_world s) = (Inr (), w)\<rbrakk>
     \<Longrightarrow> thread_move cp env P s (s\<lparr>th_sig := Reading, th_world := w\<rparr>)"
| sig_finds_not:
    "\<lbrakk>th_sig s = Finding; find_transaction env (th_world s) = (Inl e, w)\<rbrakk>
     \<Longrightarrow> thread_move cp env P s (s\<lparr>th_outcome := Terminated e, th_world := w\<rparr>)"
| sig_reads:
    "\<lbrakk>th_sig s = Reading; read_signatures cp env P (th_world s) = (Inr (), w)\<rbrakk>
     \<Longrightarrow> thread_move cp env P s (s\<lparr>th_sig := SigReturned, th_signature_finished := True, th_world := w\<rparr>)"
| sig_reads_not:
    "\<lbrakk>th_sig s = Reading; read_signatures cp env P (th_world s) = (Inl e, w)\<rbrakk>
     \<Longrightarrow> thread_move cp env P s (s\<lparr>th_outcome := Terminated e, th_world := w\<rparr>)"
| lock_redeems:
    "\<lbrakk>th_lock s = Trying (j # js); redeem_once cp env P j (th_world s) = Some (Inr True, w)\<rbrakk>
     \<Longrightarrow> thread_move cp env P s (s\<lparr>th_lock := LockReturned, th_time_lock_finished := True, th_world := w\<rparr>)"
| lock_refused:
    "\<lbrakk>th_lock s = Trying (j # js); redeem_once cp env P j (th_world s) = Some (Inr False, w)\<rbrakk>
     \<Longrightarrow> thread_move cp env P s (s\<lparr>th_lock := Trying js, th_world := w\<rparr>)"
| lock_raises:
    "\<lbrakk>th_lock s = Trying (j # js); redeem_once cp env P j (th_world s) = Some (Inl e, w)\<rbrakk>
     \<Longrightarrow> thread_move cp env P s (s\<lparr>th_outcome := Terminated e, th_world := w\<rparr>)"
| lock_sleeps:
    "th_lock s = Trying [] \<Longrightarrow> thread_move cp env P s (s\<lparr>th_lock := Asleep\<rparr>)"

text \<open>The wait: the threads move, and the loop sees a flag.\<close>

inductive thread_step :: "cryptopp \<Rightarrow> rpc \<Rightarrow> params \<Rightarrow> threads \<Rightarrow> threads \<Rightarrow> bool"
  for cp :: cryptopp and env :: rpc and P :: params where
  moves:
    "\<lbrakk>th_outcome s = Waiting; thread_move cp env P s t\<rbrakk> \<Longrightarrow> thread_step cp env P s t"
| sees_signature:
    "\<lbrakk>th_outcome s = Waiting; th_signature_finished s\<rbrakk>
     \<Longrightarrow> thread_step cp env P s (s\<lparr>th_outcome := SignatureFinished\<rparr>)"
| sees_lock:
    "\<lbrakk>th_outcome s = Waiting; th_time_lock_finished s; \<not> th_signature_finished s\<rbrakk>
     \<Longrightarrow> thread_step cp env P s (s\<lparr>th_outcome := TimeLockFinished\<rparr>)"

abbreviation thread_reaches :: "cryptopp \<Rightarrow> rpc \<Rightarrow> params \<Rightarrow> threads \<Rightarrow> threads \<Rightarrow> bool" where
  "thread_reaches cp env P \<equiv> (thread_step cp env P)\<^sup>*\<^sup>*"

text \<open>
  After the wait the other thread is detached: it runs on beside the rest of the program, which can still
  end with its exception.
\<close>

definition wait_over :: "threads \<Rightarrow> bool" where
  "wait_over s \<longleftrightarrow> th_outcome s = SignatureFinished \<or> th_outcome s = TimeLockFinished"

inductive detached_step :: "cryptopp \<Rightarrow> rpc \<Rightarrow> params \<Rightarrow> threads \<Rightarrow> threads \<Rightarrow> bool"
  for cp :: cryptopp and env :: rpc and P :: params where
  detached_moves:
    "\<lbrakk>wait_over s; thread_move cp env P s t\<rbrakk> \<Longrightarrow> detached_step cp env P s t"

abbreviation detached_reaches :: "cryptopp \<Rightarrow> rpc \<Rightarrow> params \<Rightarrow> threads \<Rightarrow> threads \<Rightarrow> bool" where
  "detached_reaches cp env P \<equiv> (detached_step cp env P)\<^sup>*\<^sup>*"

section \<open>What the buyer can end with\<close>

text \<open>Nothing, or two numbers whose product is the modulus.\<close>

definition results_ok :: "buyer \<Rightarrow> bool" where
  "results_ok b \<longleftrightarrow> (bu_p b = 0 \<and> bu_q b = 0) \<or> bu_p b * bu_q b = bu_n b"

lemma factorise_results: "results_ok b \<Longrightarrow> results_ok (snd (factorise cp P b))"
  by (auto simp: factorise_def results_ok_def Let_def dest: factor_loop_product split: sum.splits)

section \<open>The threads as a deal\<close>

definition thread_deal :: "threads \<Rightarrow> deal" where
  "thread_deal s = \<lparr>dl_status = (case th_outcome s of Waiting \<Rightarrow> Open
       | SignatureFinished \<Rightarrow> Sold (bu_p (w_buyer (th_world s))) (bu_q (w_buyer (th_world s)))
       | TimeLockFinished \<Rightarrow> Refunded | Terminated e \<Rightarrow> Crashed e),
     dl_calls = w_calls (th_world s)\<rparr>"

text \<open>A flag is set exactly by a thread that has returned, and tells the truth; the modulus never changes.\<close>

definition thread_inv :: "int \<Rightarrow> rpc \<Rightarrow> threads \<Rightarrow> bool" where
  "thread_inv n env s \<longleftrightarrow> bu_n (w_buyer (th_world s)) = n \<and>
     (th_sig s = SigReturned \<longleftrightarrow> th_signature_finished s) \<and>
     (th_signature_finished s \<longrightarrow> bu_p (w_buyer (th_world s)) * bu_q (w_buyer (th_world s)) = n) \<and>
     (th_time_lock_finished s \<longrightarrow> redeemed env (w_calls (th_world s))) \<and>
     (th_outcome s = SignatureFinished \<longrightarrow> th_signature_finished s) \<and>
     (th_outcome s = TimeLockFinished \<longrightarrow> th_time_lock_finished s)"

text \<open>What one step of a thread does to the world.\<close>

definition world_step :: "world \<Rightarrow> world \<Rightarrow> bool" where
  "world_step w w' \<longleftrightarrow> (\<exists>cs. w_calls w' = w_calls w @ cs) \<and> bu_n (w_buyer w') = bu_n (w_buyer w) \<and>
     (results_ok (w_buyer w) \<longrightarrow> results_ok (w_buyer w'))"

text \<open>What the thread of the signature leaves alone: all that its own three writes leave alone.\<close>

lemma signature_thread_keeps:
  assumes "\<And>w cs. I (w\<lparr>w_calls := cs\<rparr>) = I w"
    and "\<And>w f. I (w\<lparr>w_buyer := (w_buyer w)\<lparr>bu_signatures := f\<rparr>\<rparr>) = I w"
    and "keeps I (\<lambda>w. case factorise cp P (w_buyer w) of (r, b) \<Rightarrow> (r, w\<lparr>w_buyer := b\<rparr>))"
  shows "keeps I (find_transaction env)" "keeps I (read_signatures cp env P)"
proof -
  have sig: "keeps I (on_buyer (\<lambda>b. b\<lparr>bu_signatures := h b\<rparr>))" for h
    using assms(2) by (simp add: keeps_def on_buyer_def)
  have call: "keeps I (\<lambda>w. rpc_call answer (c w) w)" for answer c
    using assms(1) by (simp add: keeps_def rpc_call_def)
  show "keeps I (find_transaction env)" "keeps I (read_signatures cp env P)"
    unfolding find_transaction_def read_signatures_def by (intro keeps_rules sig call assms(3))+
qed

lemma factorise_keeps:
  "keeps (\<lambda>w. bu_n (w_buyer w) = m) (\<lambda>w. case factorise cp P (w_buyer w) of (r, b) \<Rightarrow> (r, w\<lparr>w_buyer := b\<rparr>))"
  "keeps (\<lambda>w. results_ok (w_buyer w)) (\<lambda>w. case factorise cp P (w_buyer w) of (r, b) \<Rightarrow> (r, w\<lparr>w_buyer := b\<rparr>))"
proof -
  show "keeps (\<lambda>w. bu_n (w_buyer w) = m) (\<lambda>w. case factorise cp P (w_buyer w) of (r, b) \<Rightarrow> (r, w\<lparr>w_buyer := b\<rparr>))"
    by (auto simp: keeps_def factorise_def Let_def split: sum.splits prod.splits)
  show "keeps (\<lambda>w. results_ok (w_buyer w)) (\<lambda>w. case factorise cp P (w_buyer w) of (r, b) \<Rightarrow> (r, w\<lparr>w_buyer := b\<rparr>))"
    using factorise_results by (auto simp: keeps_def split: prod.splits) (metis snd_conv)
qed

lemma sig_world_step:
  "find_transaction env w = (r, w') \<Longrightarrow> world_step w w'"
  "read_signatures cp env P w = (r', w') \<Longrightarrow> world_step w w'"
proof -
  have q: "quiet (find_transaction env)" "quiet (read_signatures cp env P)"
    unfolding find_transaction_def read_signatures_def by (intro quiet_rules; simp)+
  have n: "keeps (\<lambda>w. bu_n (w_buyer w) = m) (find_transaction env)"
    "keeps (\<lambda>w. bu_n (w_buyer w) = m) (read_signatures cp env P)" for m
    by (rule signature_thread_keeps [OF _ _ factorise_keeps(1)]; simp)+
  have ok: "keeps (\<lambda>w. results_ok (w_buyer w)) (find_transaction env)"
    "keeps (\<lambda>w. results_ok (w_buyer w)) (read_signatures cp env P)"
    by (rule signature_thread_keeps [OF _ _ factorise_keeps(2)]; simp add: results_ok_def)+
  show "world_step w w'" if "find_transaction env w = (r, w')"
    using q(1) keepsD [OF n(1) refl that] keepsD [OF ok(1) _ that] that
    unfolding world_step_def quiet_def by (metis snd_conv)
  show "world_step w w'" if "read_signatures cp env P w = (r', w')"
    using q(2) keepsD [OF n(2) refl that] keepsD [OF ok(2) _ that] that
    unfolding world_step_def quiet_def by (metis snd_conv)
qed

lemma read_signatures_product: "read_signatures cp env P w = (Inr (), w') \<Longrightarrow> bu_p (w_buyer w') * bu_q (w_buyer w') = bu_n (w_buyer w')"
  using factorise_product by (auto simp: read_signatures_def and_then_Inr seq_Inr lifted_Inr)

lemma redeem_world_step: "redeem_once cp env P j w = Some (r, w') \<Longrightarrow> world_step w w'"
  using redeem_once_result [of cp env P j w r w'] by (auto simp: world_step_def)

lemma thread_move_world: "thread_move cp env P s t \<Longrightarrow> world_step (th_world s) (th_world t)"
  by (induction rule: thread_move.induct) (auto dest!: sig_world_step redeem_world_step simp: world_step_def)

lemma thread_move_outcome:
  "thread_move cp env P s t \<Longrightarrow> th_outcome t = th_outcome s \<or> (\<exists>e. th_outcome t = Terminated e)"
  by (induction rule: thread_move.induct) simp_all

lemma thread_inv_start:
  "thread_inv (bu_n (w_buyer w)) env (threads_start P w)"
  by (simp add: thread_inv_def threads_start_def)

lemma thread_inv_move: "thread_move cp env P s t \<Longrightarrow> thread_inv n env s \<Longrightarrow> thread_inv n env t"
proof (induction rule: thread_move.induct)
  case (sig_finds s w)
  then show ?case using sig_world_step(1) [OF sig_finds(2)]
    by (auto simp: thread_inv_def world_step_def redeemed_append)
next
  case (sig_finds_not s e w)
  then show ?case using sig_world_step(1) [OF sig_finds_not(2)]
    by (auto simp: thread_inv_def world_step_def redeemed_append)
next
  case (sig_reads s w)
  then show ?case using sig_world_step(2) [OF sig_reads(2)] read_signatures_product [OF sig_reads(2)]
    by (auto simp: thread_inv_def world_step_def redeemed_append)
next
  case (sig_reads_not s e w)
  then show ?case using sig_world_step(2) [OF sig_reads_not(2)]
    by (auto simp: thread_inv_def world_step_def redeemed_append)
next
  case (lock_redeems s j js w)
  then show ?case using redeem_once_result [OF lock_redeems(2)] by (auto simp: thread_inv_def)
next
  case (lock_refused s j js w)
  then show ?case using redeem_once_result [OF lock_refused(2)] by (auto simp: thread_inv_def redeemed_append)
next
  case (lock_raises s j js e w)
  then show ?case using redeem_once_result [OF lock_raises(2)] by (auto simp: thread_inv_def redeemed_append)
qed (simp_all add: thread_inv_def)

lemma thread_inv_step: "thread_step cp env P s t \<Longrightarrow> thread_inv n env s \<Longrightarrow> thread_inv n env t"
  by (induction rule: thread_step.induct) (blast intro: thread_inv_move, simp_all add: thread_inv_def)

text \<open>Every step of the machine is one of the deal: a move of a thread is talk or a crash.\<close>

lemma thread_move_simulates:
  assumes "thread_move cp env P s t" "th_outcome s = Waiting"
  shows "settle n env (thread_deal s) (thread_deal t)"
proof -
  obtain cs where "w_calls (th_world t) = w_calls (th_world s) @ cs"
    using thread_move_world [OF assms(1)] by (auto simp: world_step_def)
  then show ?thesis
    using thread_move_outcome [OF assms(1)] assms(2) by (auto simp: thread_deal_def intro: settle.talk settle.crash)
qed

lemma thread_step_simulates:
  "thread_step cp env P s t \<Longrightarrow> thread_inv n env s \<Longrightarrow> settle n env (thread_deal s) (thread_deal t)"
proof (induction rule: thread_step.induct)
  case (moves s t)
  then show ?case by (simp add: thread_move_simulates)
next
  case (sees_signature s)
  then show ?case by (auto simp: thread_deal_def thread_inv_def intro: settle.sell)
next
  case (sees_lock s)
  then show ?case by (auto simp: thread_deal_def thread_inv_def intro: settle.refund)
qed

lemma thread_reaches_simulates:
  assumes "thread_reaches cp env P s t" "thread_inv n env s"
  shows "(settle n env)\<^sup>*\<^sup>* (thread_deal s) (thread_deal t)" "thread_inv n env t"
proof -
  have "(settle n env)\<^sup>*\<^sup>* (thread_deal s) (thread_deal t) \<and> thread_inv n env t"
    using assms
  proof (induction rule: rtranclp_induct)
    case (step t u)
    then show ?case using thread_step_simulates [OF step.hyps(2)] thread_inv_step [OF step.hyps(2)]
      by (blast intro: rtranclp.rtrancl_into_rtrancl)
  qed simp
  then show "(settle n env)\<^sup>*\<^sup>* (thread_deal s) (thread_deal t)" "thread_inv n env t" by blast+
qed

lemma thread_step_results:
  "thread_step cp env P s t \<Longrightarrow> results_ok (w_buyer (th_world s)) \<Longrightarrow> results_ok (w_buyer (th_world t))"
  by (induction rule: thread_step.induct) (auto dest: thread_move_world simp: world_step_def)

lemma thread_reaches_results:
  "thread_reaches cp env P s t \<Longrightarrow> results_ok (w_buyer (th_world s)) \<Longrightarrow> results_ok (w_buyer (th_world t))"
  by (induction rule: rtranclp_induct) (auto intro: thread_step_results)

section \<open>The wait ends\<close>

fun sig_left :: "sig_pc \<Rightarrow> nat" where
  "sig_left Finding = 2"
| "sig_left Reading = 1"
| "sig_left SigReturned = 0"

fun lock_left :: "lock_pc \<Rightarrow> nat" where
  "lock_left (Trying js) = Suc (length js)"
| "lock_left _ = 0"

definition threads_left :: "threads \<Rightarrow> nat" where
  "threads_left s = (if th_outcome s = Waiting then Suc (sig_left (th_sig s) + lock_left (th_lock s)) else 0)"

lemma thread_move_less: "thread_move cp env P s t \<Longrightarrow> th_outcome s = Waiting \<Longrightarrow> threads_left t < threads_left s"
  by (induction rule: thread_move.induct) (simp_all add: threads_left_def)

lemma thread_step_less: "thread_step cp env P s t \<Longrightarrow> threads_left t < threads_left s"
  by (induction rule: thread_step.induct) (blast intro: thread_move_less, simp_all add: threads_left_def)

definition sig_flag :: "threads \<Rightarrow> bool" where
  "sig_flag s \<longleftrightarrow> th_sig s = SigReturned \<longrightarrow> th_signature_finished s"

lemma sig_flag_start: "sig_flag (threads_start P w)"
  by (simp add: sig_flag_def threads_start_def)

lemma sig_flag_move: "thread_move cp env P s t \<Longrightarrow> sig_flag s \<Longrightarrow> sig_flag t"
  by (induction rule: thread_move.induct) (simp_all add: sig_flag_def)

lemma sig_flag_step: "thread_step cp env P s t \<Longrightarrow> sig_flag s \<Longrightarrow> sig_flag t"
  by (induction rule: thread_step.induct) (blast intro: sig_flag_move, simp_all add: sig_flag_def)

text \<open>Whatever the thread of the time lock does, the other thread or the loop can go on.\<close>

lemma threads_not_stuck:
  assumes "sig_flag s" "th_outcome s = Waiting"
  shows "\<exists>t. thread_step cp env P s t"
proof (cases "th_sig s")
  case Finding
  obtain r w where "find_transaction env (th_world s) = (r, w)" by (metis surj_pair)
  then show ?thesis
    using thread_move.sig_finds [of s env w cp P] thread_move.sig_finds_not [of s env _ w cp P] assms(2) Finding
    by (cases r) (auto intro: thread_step.moves)
next
  case Reading
  obtain r w where "read_signatures cp env P (th_world s) = (r, w)" by (metis surj_pair)
  then show ?thesis
    using thread_move.sig_reads [of s cp env P w] thread_move.sig_reads_not [of s cp env P _ w] assms(2) Reading
    by (cases r) (auto intro: thread_step.moves)
next
  case SigReturned
  then show ?thesis using assms thread_step.sees_signature [of s] by (auto simp: sig_flag_def)
qed

lemma threads_run:
  assumes "(thread_step cp env P ^^ k) (threads_start P w) s"
  shows "threads_left s + k \<le> par_R P + 4 \<and> sig_flag s"
  using assms
proof (induction k arbitrary: s)
  case 0
  then show ?case by (auto simp: threads_left_def sig_flag_def threads_start_def)
next
  case (Suc k)
  then obtain t where t: "(thread_step cp env P ^^ k) (threads_start P w) t" "thread_step cp env P t s" by auto
  then show ?case using Suc.IH [OF t(1)] thread_step_less [OF t(2)] sig_flag_step [OF t(2)] by simp
qed

lemma threads_can_end: "sig_flag s \<Longrightarrow> \<exists>t. thread_reaches cp env P s t \<and> th_outcome t \<noteq> Waiting"
proof (induction "threads_left s" arbitrary: s rule: less_induct)
  case less
  show ?case
  proof (cases "th_outcome s = Waiting")
    case True
    obtain t where t: "thread_step cp env P s t" using threads_not_stuck [OF less.prems True] by blast
    show ?thesis
      using less.hyps [OF thread_step_less [OF t] sig_flag_step [OF t less.prems]] t
      by (blast intro: converse_rtranclp_into_rtranclp)
  qed blast
qed

section \<open>One thread alone\<close>

text \<open>
  A thread that runs without the other does what its function does: the machine only adds the
  interleavings.
\<close>

lemma signature_alone:
  assumes "get_signature cp env P w = (Inr (), w')"
  shows "\<exists>s1 s. thread_step cp env P (threads_start P w) s1 \<and> th_outcome s1 = Waiting \<and>
    thread_reaches cp env P s1 s \<and> th_outcome s = SignatureFinished \<and> th_world s = w' \<and> th_lock s = Trying [0..<par_R P]"
proof -
  obtain w1 where w1: "find_transaction env w = (Inr (), w1)" "read_signatures cp env P w1 = (Inr (), w')"
    using assms by (auto simp: get_signature_parts seq_Inr)
  let ?s1 = "(threads_start P w)\<lparr>th_sig := Reading, th_world := w1\<rparr>"
  let ?s2 = "?s1\<lparr>th_sig := SigReturned, th_signature_finished := True, th_world := w'\<rparr>"
  let ?s3 = "?s2\<lparr>th_outcome := SignatureFinished\<rparr>"
  have "thread_step cp env P (threads_start P w) ?s1"
    by (intro thread_step.moves thread_move.sig_finds) (use w1 in \<open>simp_all add: threads_start_def\<close>)
  moreover have "thread_step cp env P ?s1 ?s2"
    by (intro thread_step.moves thread_move.sig_reads) (use w1 in \<open>simp_all add: threads_start_def\<close>)
  moreover have "thread_step cp env P ?s2 ?s3"
    by (rule thread_step.sees_signature) (simp_all add: threads_start_def)
  moreover have "th_outcome ?s1 = Waiting" "th_outcome ?s3 = SignatureFinished" "th_world ?s3 = w'"
    "th_lock ?s3 = Trying [0..<par_R P]"
    by (simp_all add: threads_start_def)
  ultimately show ?thesis by (blast intro: converse_rtranclp_into_rtranclp)
qed

lemma lock_loop_alone:
  assumes "redeem_loop cp env P False js (th_world s) = Some (Inr True, w')"
    and "th_outcome s = Waiting" "th_lock s = Trying js"
  shows "thread_reaches cp env P s (s\<lparr>th_lock := LockReturned, th_time_lock_finished := True, th_world := w'\<rparr>)"
  using assms
proof (induction js arbitrary: s)
  case Nil
  then show ?case by simp
next
  case (Cons j js)
  obtain res w1 where once: "redeem_once cp env P j (th_world s) = Some (Inr res, w1)"
    and rest: "redeem_loop cp env P res js w1 = Some (Inr True, w')"
    using Cons.prems(1) by (auto simp: redeem_loop_once simp del: redeem_loop.simps split: option.splits sum.splits)
  show ?case
  proof (cases res)
    case True
    then have "w1 = w'" using rest by (cases js) simp_all
    then show ?thesis using thread_step.moves [OF Cons.prems(2) thread_move.lock_redeems [OF Cons.prems(3)]] once True by (simp add: r_into_rtranclp)
  next
    case False
    let ?t = "s\<lparr>th_lock := Trying js, th_world := w1\<rparr>"
    have "thread_step cp env P s ?t" using thread_step.moves [OF Cons.prems(2) thread_move.lock_refused [OF Cons.prems(3)]] once False by simp
    moreover have "thread_reaches cp env P ?t (?t\<lparr>th_lock := LockReturned, th_time_lock_finished := True, th_world := w'\<rparr>)"
      by (rule Cons.IH) (use rest False Cons.prems in simp_all)
    ultimately show ?thesis by (simp add: converse_rtranclp_into_rtranclp)
  qed
qed

lemma lock_alone:
  assumes "solve_time_lock cp env P w = Some (Inr (), w')"
  shows "\<exists>s. thread_reaches cp env P (threads_start P w) s \<and> th_outcome s = TimeLockFinished \<and> th_world s = w' \<and> th_sig s = Finding"
proof -
  have "redeem_loop cp env P False [0..<par_R P] w = Some (Inr True, w')"
    using assms by (auto simp: solve_time_lock_def split: option.splits sum.splits if_splits)
  then have "thread_reaches cp env P (threads_start P w)
    ((threads_start P w)\<lparr>th_lock := LockReturned, th_time_lock_finished := True, th_world := w'\<rparr>)" (is "thread_reaches _ _ _ _ ?s")
    by (intro lock_loop_alone) (simp_all add: threads_start_def)
  moreover have "thread_step cp env P ?s (?s\<lparr>th_outcome := TimeLockFinished\<rparr>)"
    by (rule thread_step.sees_lock) (simp_all add: threads_start_def)
  ultimately show ?thesis by (intro exI [of _ "?s\<lparr>th_outcome := TimeLockFinished\<rparr>"]) (auto simp: threads_start_def intro: rtranclp.rtrancl_into_rtrancl)
qed

section \<open>After the wait\<close>

text \<open>
  What the program prints is read while the detached thread runs: the first number in one state, the second in
  another, because \<open>factorise\<close> writes them one after the other and nothing orders these writes and the reads.
\<close>

definition reads_results :: "cryptopp \<Rightarrow> rpc \<Rightarrow> params \<Rightarrow> threads \<Rightarrow> threads \<Rightarrow> int \<Rightarrow> int \<Rightarrow> bool" where
  "reads_results cp env P s t p q \<longleftrightarrow> wait_over s \<and> wait_over t \<and>
     (\<exists>t1. detached_reaches cp env P s t1 \<and> detached_reaches cp env P t1 t \<and> p = bu_p (w_buyer (th_world t1))) \<and>
     (\<exists>t2. detached_reaches cp env P s t2 \<and> detached_reaches cp env P t2 t \<and> q = bu_q (w_buyer (th_world t2)))"

text \<open>A thread that has returned writes no more; until it has, the buyer has no results.\<close>

lemma sig_returned_move:
  "thread_move cp env P s t \<Longrightarrow> th_sig s = SigReturned \<Longrightarrow>
     th_sig t = SigReturned \<and> w_buyer (th_world t) = w_buyer (th_world s)"
  by (induction rule: thread_move.induct) (auto dest: redeem_once_result)

lemma lock_returned_move: "thread_move cp env P s t \<Longrightarrow> th_time_lock_finished s \<Longrightarrow> th_time_lock_finished t"
  by (induction rule: thread_move.induct) simp_all

definition unsold :: "threads \<Rightarrow> bool" where
  "unsold s \<longleftrightarrow> th_sig s \<noteq> SigReturned \<and> (\<forall>e. th_outcome s \<noteq> Terminated e) \<longrightarrow>
     bu_p (w_buyer (th_world s)) = 0 \<and> bu_q (w_buyer (th_world s)) = 0"

text \<open>The kept executions are for reading only.\<close>

lemma get_signature_single_buyers:
  assumes "get_signature cp env P w = (r, w')"
  shows "bu_single_buyers (w_buyer w') = bu_single_buyers (w_buyer w)"
proof -
  let ?I = "\<lambda>v. bu_single_buyers (w_buyer v) = bu_single_buyers (w_buyer w)"
  have fac: "keeps ?I (\<lambda>w. case factorise cp P (w_buyer w) of (r, b) \<Rightarrow> (r, w\<lparr>w_buyer := b\<rparr>))"
    by (auto simp: keeps_def factorise_def Let_def split: sum.splits prod.splits)
  have "keeps ?I (find_transaction env)" "keeps ?I (read_signatures cp env P)"
    by (rule signature_thread_keeps [OF _ _ fac]; simp)+
  then have "keeps ?I (get_signature cp env P)" unfolding get_signature_parts by (rule keeps_seq)
  from keepsD [OF this refl assms] show ?thesis .
qed

lemma find_transaction_buyer: "find_transaction env w = (r, w') \<Longrightarrow> w_buyer w' = w_buyer w"
  by (auto simp: find_transaction_def and_then_def rpc_call_def throw_if_def split: sum.splits if_splits)

lemma unsold_move: "thread_move cp env P s t \<Longrightarrow> unsold s \<Longrightarrow> unsold t"
  by (induction rule: thread_move.induct) (auto simp: unsold_def dest: find_transaction_buyer redeem_once_result)

lemma unsold_step: "thread_step cp env P s t \<Longrightarrow> unsold s \<Longrightarrow> unsold t"
  by (induction rule: thread_step.induct) (blast intro: unsold_move, simp_all add: unsold_def)

lemma unsold_reaches: "thread_reaches cp env P s t \<Longrightarrow> unsold s \<Longrightarrow> unsold t"
  by (induction rule: rtranclp_induct) (auto intro: unsold_step)

lemma detached_reaches_keeps:
  assumes "detached_reaches cp env P s t"
  shows "thread_inv n env s \<Longrightarrow> thread_inv n env t" "unsold s \<Longrightarrow> unsold t"
    and "th_sig s = SigReturned \<Longrightarrow> th_sig t = SigReturned \<and> w_buyer (th_world t) = w_buyer (th_world s)"
    and "th_time_lock_finished s \<Longrightarrow> th_time_lock_finished t" "wait_over t \<Longrightarrow> wait_over s"
  using assms
proof (induction rule: rtranclp_induct)
  case (step t u)
  have m: "thread_move cp env P t u" "wait_over t" using step.hyps(2) by (auto elim: detached_step.cases)
  note moved = thread_inv_move [OF m(1)] unsold_move [OF m(1)] sig_returned_move [OF m(1)] lock_returned_move [OF m(1)]
  { case 1 then show ?case using step.IH(1) moved(1) by blast }
  { case 2 then show ?case using step.IH(2) moved(2) by blast }
  { case 3 then show ?case using step.IH(3) moved(3) by simp }
  { case 4 then show ?case using step.IH(4) moved(4) by blast }
  { case 5 then show ?case using step.IH(5) m(2) by blast }
qed simp_all

text \<open>What is read at any time after the wait.\<close>

lemma read_states:
  assumes "detached_reaches cp env P s t1" "detached_reaches cp env P t1 t" "wait_over t" "unsold s" "thread_inv n env s"
  shows "bu_p (w_buyer (th_world t1)) = 0 \<and> bu_q (w_buyer (th_world t1)) = 0 \<and> th_sig s \<noteq> SigReturned \<or>
    w_buyer (th_world t1) = w_buyer (th_world t) \<and> bu_p (w_buyer (th_world t)) * bu_q (w_buyer (th_world t)) = n"
proof (cases "th_sig t1 = SigReturned")
  case True
  then show ?thesis
    using detached_reaches_keeps(1,3) [OF assms(2)] detached_reaches_keeps(1) [OF assms(1,5)] by (auto simp: thread_inv_def)
next
  case False
  have "wait_over t1" using detached_reaches_keeps(5) [OF assms(2,3)] .
  then show ?thesis
    using False detached_reaches_keeps(2,3) [OF assms(1)] assms(4) by (auto simp: unsold_def wait_over_def)
qed

lemma reads_results_ok:
  assumes reach: "thread_reaches cp env P (threads_start P w) s" and reads: "reads_results cp env P s t p q"
    and none: "bu_p (w_buyer w) = 0" "bu_q (w_buyer w) = 0" and n: "bu_n (w_buyer w) = n"
  shows "(p = 0 \<or> p dvd n) \<and> (q = 0 \<or> q dvd n) \<and> (p \<noteq> 0 \<and> q \<noteq> 0 \<longrightarrow> p * q = n) \<and>
    (p * q \<noteq> n \<longrightarrow> redeemed env (w_calls (th_world t)))"
proof -
  obtain t1 t2 where t1: "detached_reaches cp env P s t1" "detached_reaches cp env P t1 t" "p = bu_p (w_buyer (th_world t1))"
    and t2: "detached_reaches cp env P s t2" "detached_reaches cp env P t2 t" "q = bu_q (w_buyer (th_world t2))"
    and over: "wait_over s" "wait_over t" using reads by (auto simp: reads_results_def)
  have inv: "thread_inv n env s" using thread_reaches_simulates(2) [OF reach thread_inv_start] n by simp
  have un: "unsold s" using unsold_reaches [OF reach] none by (simp add: unsold_def threads_start_def)
  have invt: "thread_inv n env t"
    using detached_reaches_keeps(1) [OF t1(2)] detached_reaches_keeps(1) [OF t1(1) inv] by blast
  note r = read_states [OF t1(1,2) over(2) un inv] read_states [OF t2(1,2) over(2) un inv]
  have "redeemed env (w_calls (th_world t))" if "th_sig s \<noteq> SigReturned"
  proof -
    have "th_time_lock_finished s" using inv over(1) that by (auto simp: thread_inv_def wait_over_def)
    then show ?thesis
      using detached_reaches_keeps(4) [OF t1(1)] detached_reaches_keeps(4) [OF t1(2)] invt by (auto simp: thread_inv_def)
  qed
  moreover have "bu_p (w_buyer (th_world t)) dvd n \<and> bu_q (w_buyer (th_world t)) dvd n"
    if "bu_p (w_buyer (th_world t)) * bu_q (w_buyer (th_world t)) = n" using that by auto
  ultimately show ?thesis using r t1(3) t2(3) by auto
qed

text \<open>The thread of the signature after the lock: its results may be read in halves.\<close>

lemma signature_detached:
  assumes "get_signature cp env P (th_world s) = (Inr (), w')" "th_outcome s = TimeLockFinished" "th_sig s = Finding"
  shows "\<exists>t. reads_results cp env P s t (bu_p (w_buyer (th_world s))) (bu_q (w_buyer w')) \<and> th_world t = w'"
proof -
  obtain w1 where w1: "find_transaction env (th_world s) = (Inr (), w1)" "read_signatures cp env P w1 = (Inr (), w')"
    using assms(1) by (auto simp: get_signature_parts seq_Inr)
  let ?s1 = "s\<lparr>th_sig := Reading, th_world := w1\<rparr>"
  let ?t = "?s1\<lparr>th_sig := SigReturned, th_signature_finished := True, th_world := w'\<rparr>"
  have "detached_step cp env P s ?s1"
    by (intro detached_moves thread_move.sig_finds) (use w1 assms in \<open>simp_all add: wait_over_def\<close>)
  moreover have "detached_step cp env P ?s1 ?t"
    by (intro detached_moves thread_move.sig_reads) (use w1 assms in \<open>simp_all add: wait_over_def\<close>)
  ultimately have run: "detached_reaches cp env P s ?t" by auto
  have "wait_over s" "wait_over ?t" using assms(2) by (simp_all add: wait_over_def)
  moreover have "\<exists>t1. detached_reaches cp env P s t1 \<and> detached_reaches cp env P t1 ?t \<and>
      bu_p (w_buyer (th_world s)) = bu_p (w_buyer (th_world t1))"
    using run by (intro exI [of _ s]) simp
  moreover have "\<exists>t2. detached_reaches cp env P s t2 \<and> detached_reaches cp env P t2 ?t \<and>
      bu_q (w_buyer w') = bu_q (w_buyer (th_world t2))"
    using run by (intro exI [of _ ?t]) simp
  ultimately show ?thesis unfolding reads_results_def by (intro exI [of _ ?t]) simp
qed

text \<open>The thread of the lock after the signature: its exception still ends the program.\<close>

lemma lock_detached_raises:
  assumes "redeem_loop cp env P False js (th_world s) = Some (Inl e, w')" "wait_over s" "th_lock s = Trying js"
  shows "\<exists>t. detached_reaches cp env P s t \<and> th_outcome t = Terminated e \<and> th_world t = w'"
  using assms
proof (induction js arbitrary: s)
  case Nil
  then show ?case by simp
next
  case (Cons j js)
  consider "redeem_once cp env P j (th_world s) = Some (Inl e, w')"
    | res w1 where "redeem_once cp env P j (th_world s) = Some (Inr res, w1)" "redeem_loop cp env P res js w1 = Some (Inl e, w')"
    using Cons.prems(1) by (auto simp: redeem_loop_once simp del: redeem_loop.simps split: option.splits sum.splits)
  then show ?case
  proof cases
    case 1
    then have "detached_step cp env P s (s\<lparr>th_outcome := Terminated e, th_world := w'\<rparr>)"
      using detached_moves [OF Cons.prems(2) thread_move.lock_raises [OF Cons.prems(3)]] by blast
    then show ?thesis by (intro exI [of _ "s\<lparr>th_outcome := Terminated e, th_world := w'\<rparr>"]) auto
  next
    case (2 res w1)
    have res: "\<not> res" using 2(2) by (cases js) auto
    let ?t = "s\<lparr>th_lock := Trying js, th_world := w1\<rparr>"
    have "detached_step cp env P s ?t"
      using detached_moves [OF Cons.prems(2) thread_move.lock_refused [OF Cons.prems(3)]] 2(1) res by simp
    moreover have "\<exists>t. detached_reaches cp env P ?t t \<and> th_outcome t = Terminated e \<and> th_world t = w'"
      by (rule Cons.IH) (use 2(2) res Cons.prems in \<open>simp_all add: wait_over_def\<close>)
    ultimately show ?thesis by (blast intro: converse_rtranclp_into_rtranclp)
  qed
qed

section \<open>Properties\<close>

text \<open>
  C10: the waiting loop implements the abstract deal: every run of the two threads and the loop, whatever the
  order of their calls, is a run of the deal over the buyer's modulus, and so it can only end with a
  factorisation of that modulus, with a redemption that the server accepted, or with a crash.
\<close>

theorem wait_refines_deal:
  assumes "thread_reaches cp env P (threads_start P w) s"
  shows "(settle (bu_n (w_buyer w)) env)\<^sup>*\<^sup>* \<lparr>dl_status = Open, dl_calls = w_calls w\<rparr> (thread_deal s)
    \<and> deal_inv (bu_n (w_buyer w)) env (thread_deal s)"
proof -
  have r: "(settle (bu_n (w_buyer w)) env)\<^sup>*\<^sup>* \<lparr>dl_status = Open, dl_calls = w_calls w\<rparr> (thread_deal s)"
    using thread_reaches_simulates(1) [OF assms thread_inv_start] by (simp add: thread_deal_def threads_start_def)
  then have "deal_inv (bu_n (w_buyer w)) env (thread_deal s)"
    by (cases rule: rtranclp.cases) (use deal_inv_step in \<open>auto simp: deal_inv_def\<close>)
  with r show ?thesis by blast
qed


text \<open>
  Whichever way the threads interleave, when the waiting loop ends with the signature then the
  buyer holds numbers whose product is \<open>n\<close>, and when it ends with the time lock then the server
  accepted a transaction that takes the payment back.
\<close>

theorem wait_outcomes:
  assumes "thread_reaches cp env P (threads_start P w) s"
  shows "(th_outcome s = SignatureFinished \<longrightarrow>
      bu_p (w_buyer (th_world s)) * bu_q (w_buyer (th_world s)) = bu_n (w_buyer (th_world s)))
    \<and> (th_outcome s = TimeLockFinished \<longrightarrow>
      (\<exists>k<length (w_calls (th_world s)). is_redeem (w_calls (th_world s) ! k)
         \<and> rpc_bool env (take k (w_calls (th_world s))) (w_calls (th_world s) ! k) = Inr True))"
  using thread_reaches_simulates(2) [OF assms thread_inv_start] by (auto simp: thread_inv_def redeemed_def)


text \<open>A run for the witnesses: the signature is found and read, and the loop sees its flag.\<close>

lemma ref_threads_run:
  assumes "w_buyer w = ref_buyer [1, 2] [1, 9]"
  shows "\<exists>s1 s. thread_step ref_cryptopp ref_server ref_one (threads_start ref_one w) s1 \<and> th_outcome s1 = Waiting \<and>
    thread_reaches ref_cryptopp ref_server ref_one (threads_start ref_one w) s \<and> th_outcome s = SignatureFinished"
proof -
  obtain w' where "get_signature ref_cryptopp ref_server ref_one w = (Inr (), w')"
    using ref_get_signature [OF assms] by blast
  from signature_alone [OF this] show ?thesis by (blast intro: converse_rtranclp_into_rtranclp)
qed

theorem wait_refines_deal_witness:
  "\<forall>se. \<exists>p q cs. p * q = 77 \<and> (settle 77 ref_server)\<^sup>*\<^sup>* \<lparr>dl_status = Open, dl_calls = []\<rparr> \<lparr>dl_status = Sold p q, dl_calls = cs\<rparr>"
proof
  fix se
  let ?w = "\<lparr>w_seller = se, w_buyer = ref_buyer [1, 2] [1, 9], w_calls = []\<rparr>"
  obtain s where run: "thread_reaches ref_cryptopp ref_server ref_one (threads_start ref_one ?w) s" "th_outcome s = SignatureFinished"
    using ref_threads_run [of ?w] by auto
  from wait_refines_deal [OF run(1)] run(2)
  show "\<exists>p q cs. p * q = 77 \<and> (settle 77 ref_server)\<^sup>*\<^sup>* \<lparr>dl_status = Open, dl_calls = []\<rparr> \<lparr>dl_status = Sold p q, dl_calls = cs\<rparr>"
    by (auto simp: thread_deal_def deal_inv_def ref_buyer_def)
qed


theorem wait_outcomes_witness:
  "\<forall>se. \<exists>s. thread_reaches ref_cryptopp ref_server ref_one
      (threads_start ref_one \<lparr>w_seller = se, w_buyer = ref_buyer [1, 2] [1, 9], w_calls = []\<rparr>) s
    \<and> th_outcome s = SignatureFinished
    \<and> bu_p (w_buyer (th_world s)) * bu_q (w_buyer (th_world s)) = bu_n (w_buyer (th_world s))"
proof
  fix se
  let ?w = "\<lparr>w_seller = se, w_buyer = ref_buyer [1, 2] [1, 9], w_calls = []\<rparr>"
  obtain s where r: "thread_reaches ref_cryptopp ref_server ref_one (threads_start ref_one ?w) s" "th_outcome s = SignatureFinished"
    using ref_threads_run [of ?w] by auto
  show "\<exists>s. thread_reaches ref_cryptopp ref_server ref_one (threads_start ref_one ?w) s \<and> th_outcome s = SignatureFinished
    \<and> bu_p (w_buyer (th_world s)) * bu_q (w_buyer (th_world s)) = bu_n (w_buyer (th_world s))"
    using r wait_outcomes [OF r(1)] by blast
qed


end
