(* ===== verification/Detection.thy ===== *)
theory Detection
  imports Cut_And_Choose
begin

text \<open>
  How often cut_and_choose/cut_and_choose.h misses a prover whose executions do not all open: a count over the
  sets of executions that the verifier can name. The verifier draws its set after the executions, so that a
  uniform draw turns each count into a probability.
\<close>

section \<open>Sets that contain given elements\<close>

lemma card_subsets_containing:
  assumes "finite A" "D \<subseteq> A"
  shows "card {S. S \<subseteq> A \<and> card S = R \<and> D \<subseteq> S} \<le> (if card D \<le> R then (card A - card D) choose (R - card D) else 0)"
proof (cases "card D \<le> R")
  case True
  let ?F = "{S. S \<subseteq> A \<and> card S = R \<and> D \<subseteq> S}" and ?G = "{B. B \<subseteq> A - D \<and> card B = R - card D}"
  have fin: "finite D" using assms finite_subset by blast
  have "inj_on (\<lambda>S. S - D) ?F" by (auto simp: inj_on_def)
  moreover have "(\<lambda>S. S - D) ` ?F \<subseteq> ?G"
    using fin by (auto simp: card_Diff_subset)
  moreover have "finite ?G" using assms(1) by (intro finite_subset [of ?G "Pow (A - D)"]) auto
  ultimately have "card ?F \<le> card ?G" by (rule card_inj_on_le)
  also have "\<dots> = card (A - D) choose (R - card D)" using assms(1) by (intro n_subsets) simp
  also have "card (A - D) = card A - card D" using assms fin by (simp add: card_Diff_subset)
  finally show ?thesis using True by simp
next
  case False
  have "card D \<le> card S" if "S \<subseteq> A" "D \<subseteq> S" for S
    using that assms(1) by (intro card_mono) (auto intro: finite_subset)
  then have none: "{S. S \<subseteq> A \<and> card S = R \<and> D \<subseteq> S} = {}" using False by auto
  show ?thesis unfolding none by simp
qed

section \<open>The sets that are accepted\<close>

text \<open>An execution opens when its opening returns and the verifier's flag is set.\<close>

definition opens :: "('a, 'b) step \<Rightarrow> ('b \<Rightarrow> bool) \<Rightarrow> 'a \<times> 'b \<Rightarrow> bool" where
  "opens reveal verified s = (case reveal s of (Inl e, t) \<Rightarrow> False | (Inr u, t) \<Rightarrow> verified (snd t))"

definition missed :: "('a, 'b) step \<Rightarrow> ('b \<Rightarrow> bool) \<Rightarrow> nat \<Rightarrow> 'a list \<times> 'b list \<Rightarrow> int set" where
  "missed reveal verified T s = int ` {i. i < T \<and> \<not> opens reveal verified (fst s ! i, snd s ! i)}"

text \<open>The sets of indices with which the verifier accepts, for some memory past the end of the vector.\<close>

definition accepted_sets ::
    "(nat \<Rightarrow> ('a, 'b) step) \<Rightarrow> (nat \<Rightarrow> ('a, 'b) step) \<Rightarrow> ('a, 'b) step \<Rightarrow> ('b \<Rightarrow> bool) \<Rightarrow>
     ('a, unit) comp \<Rightarrow> nat \<Rightarrow> nat \<Rightarrow> 'a cc_prover \<Rightarrow> 'b cc_verifier \<Rightarrow> int set set" where
  "accepted_sets init exec reveal verified cheat_op T R p v =
     {set chosen | chosen past_end p' v'.
        cut_and_choose init exec reveal verified cheat_op T R past_end (-1) (p, v\<lparr>vf_i := chosen\<rparr>) = (Inr (), p', v') \<and> vf_res v'}"

lemma accepted_set_contains:
  assumes run: "run_all init exec T (pv_v p, vf_v v) = (Inr (), s)"
    and S: "S \<in> accepted_sets init exec reveal verified cheat_op T R p v"
  shows "S \<subseteq> {0..<int T} \<and> card S = R \<and> missed reveal verified T s \<subseteq> S"
proof -
  obtain chosen past_end p' v' where S: "S = set chosen" and res: "vf_res v'"
    and cc: "cut_and_choose init exec reveal verified cheat_op T R past_end (-1) (p, v\<lparr>vf_i := chosen\<rparr>) = (Inr (), p', v')"
    using S by (auto simp: accepted_sets_def)
  have good: "good_indices T R chosen"
    and o: "\<And>i. i < T \<Longrightarrow> opened_at reveal verified chosen i s (pv_v p', vf_v v')"
    using cut_and_choose_result [OF cc] res run by auto
  have "int i \<in> S" if "i < T" "\<not> opens reveal verified (fst s ! i, snd s ! i)" for i
    using o [OF that(1)] that(2) by (auto simp: S opened_at_def opens_def split: if_splits)
  then show ?thesis using good by (auto simp: S good_indices_def missed_def distinct_card)
qed

lemma card_accepted_sets:
  assumes run: "run_all init exec T (pv_v p, vf_v v) = (Inr (), s)" and D: "D \<subseteq> missed reveal verified T s"
  shows "card (accepted_sets init exec reveal verified cheat_op T R p v)
    \<le> (if card D \<le> R then (T - card D) choose (R - card D) else 0)"
proof -
  let ?F = "{S. S \<subseteq> {0..<int T} \<and> card S = R \<and> D \<subseteq> S}"
  have "accepted_sets init exec reveal verified cheat_op T R p v \<subseteq> ?F"
    using accepted_set_contains [OF run] D by blast
  moreover have "finite ?F" by (rule finite_subset [of _ "Pow {0..<int T}"]) auto
  ultimately have "card (accepted_sets init exec reveal verified cheat_op T R p v) \<le> card ?F" by (rule card_mono [rotated])
  also have "\<dots> \<le> (if card D \<le> R then (card {0..<int T} - card D) choose (R - card D) else 0)"
    using D by (intro card_subsets_containing) (auto simp: missed_def)
  also have "card {0..<int T} = T" by simp
  finally show ?thesis .
qed

section \<open>Properties\<close>

text \<open>
  C16: a prover with \<open>d\<close> executions that would not open is accepted with at most \<open>T - d\<close> choose \<open>R - d\<close> of the sets that the
  verifier can name, and with none when \<open>d\<close> exceeds \<open>R\<close>; with a single one already, at most the part \<open>R / T\<close> of
  all sets of \<open>R\<close> executions lets it through.
\<close>

theorem cut_and_choose_detects:
  assumes run: "run_all init exec T (pv_v p, vf_v v) = (Inr (), s)"
    and D: "D = missed reveal verified T s" and acc: "acc = accepted_sets init exec reveal verified cheat_op T R p v"
  shows "card acc \<le> (if card D \<le> R then (T - card D) choose (R - card D) else 0) \<and>
    (D \<noteq> {} \<longrightarrow> card acc * T \<le> R * (T choose R))"
proof (intro conjI impI)
  show "card acc \<le> (if card D \<le> R then (T - card D) choose (R - card D) else 0)"
    unfolding acc D by (rule card_accepted_sets [OF run subset_refl])
  assume "D \<noteq> {}"
  then obtain d where d: "{d} \<subseteq> missed reveal verified T s" and "0 < T" by (auto simp: D missed_def)
  then have le: "card acc \<le> (if 1 \<le> R then (T - 1) choose (R - 1) else 0)"
    unfolding acc using card_accepted_sets [OF run d, of cheat_op R] by (cases R) simp_all
  show "card acc * T \<le> R * (T choose R)"
  proof (cases R)
    case (Suc k)
    obtain n where n: "T = Suc n" using \<open>0 < T\<close> by (cases T) auto
    have "card acc \<le> n choose k" using le by (simp add: Suc n)
    then have "card acc * T \<le> Suc n * (n choose k)" unfolding n by (metis mult.commute mult_le_mono1)
    also have "\<dots> = R * (T choose R)" unfolding Suc n by (simp only: Suc_times_binomial)
    finally show ?thesis .
  qed (use le in simp)
qed

text \<open>A prover that changes its first message after the commitment is accepted with one set of two at most.\<close>

theorem cut_and_choose_detects_witness:
  "card (accepted_sets (\<lambda>i. sha_init) (\<lambda>i. if i = 0 then seq (sha_exec ref_cryptopp [7]) (on_first sender_cheat)
     else sha_exec ref_cryptopp [7]) (sha_open ref_cryptopp) getOpenVerified sender_cheat 2 1 sample_prover (sample_verifier [])) \<le> 1"
proof -
  have upt: "[0..<2::nat] = [0, 1]" by (simp add: upt_rec)
  let ?exec = "\<lambda>i::nat. if i = 0 then seq (sha_exec ref_cryptopp [7]) (on_first sender_cheat) else sha_exec ref_cryptopp [7]"
  let ?com = "compute_sha ref_cryptopp [1, 2] [7]"
  let ?s0 = "\<lparr>snd_m = [0, 2], snd_seed = [7], snd_com = ?com\<rparr>"
  let ?r0 = "\<lparr>rcv_open_verified = False, rcv_m = [], rcv_seed = [], rcv_com = take COM_SIZE ?com\<rparr>"
  obtain s1 r1 where run: "run_all (\<lambda>i. sha_init) ?exec 2 (pv_v sample_prover, vf_v (sample_verifier [])) = (Inr (), [?s0, s1], [?r0, r1])"
    by (simp add: run_all_def upt at_index_def seq_def and_then_def sha_init_def sha_exec_def sample_prover_def
        sample_verifier_def Let_def numeral_2_eq_2 on_first_def sender_cheat_def)
  have "take COM_SIZE ?com ! 0 \<noteq> compute_sha ref_cryptopp [0, 2] [7] ! 0"
    by (simp add: compute_sha_def ref_cryptopp_def Let_def sha_N_def COM_SIZE_def)
  then have "\<not> same_prefix COM_SIZE (take COM_SIZE ?com) (compute_sha ref_cryptopp [0, 2] [7])"
    unfolding same_prefix_iff by (auto simp: COM_SIZE_def intro!: exI [of _ 0])
  then have bad: "\<not> opens (sha_open ref_cryptopp) getOpenVerified (?s0, ?r0)"
    by (simp add: opens_def sha_open_def setOpenVerified_def getOpenVerified_def Let_def sha_N_def)
  have "0 \<in> missed (sha_open ref_cryptopp) getOpenVerified 2 ([?s0, s1], [?r0, r1])" using bad by (auto simp: missed_def)
  then have ne: "missed (sha_open ref_cryptopp) getOpenVerified 2 ([?s0, s1], [?r0, r1]) \<noteq> {}" by blast
  have "card (accepted_sets (\<lambda>i. sha_init) ?exec (sha_open ref_cryptopp) getOpenVerified sender_cheat 2 1 sample_prover
      (sample_verifier [])) * 2 \<le> 1 * (2 choose 1)"
    by (rule cut_and_choose_detects [OF run refl refl, THEN conjunct2, THEN mp, OF ne])
  then show ?thesis by simp
qed

end
