(* ===== verification/Main_Program.thy ===== *)
theory Main_Program
  imports Threads Exchange
begin

text \<open>
  main/main.cpp: the program reads the two primes, the price and whether the seller cheats, builds the
  parties, runs the exchange inside a handler for \<open>ProtocolException\<close>, and prints the two numbers
  that the buyer ended with.
\<close>

section \<open>The program\<close>

text \<open>The lines on the error stream and the two numbers printed, or an exception that nothing caught.\<close>

datatype main_result = Exited "string list" int int | Aborted exn

definition main_world ::
    "setting \<Rightarrow> seller \<Rightarrow> buyer \<Rightarrow> int \<Rightarrow> int \<Rightarrow> 32 word \<Rightarrow> bool \<Rightarrow> exn + world" where
  "main_world E ms mb p q price cheat =
     sum_then (new_seller (lib E) (server E) ms p q price cheat) (\<lambda>seller.
       let buyer = new_buyer mb (p * q) price
       in Inr \<lparr>w_seller = seller, w_buyer = buyer, w_calls = [FreshAddress]\<rparr>)"

text \<open>
  What follows the \<^verbatim>\<open>try\<close>: the handler is for the class of protocol.h only. The classes of the same
  name in other namespaces, the exceptions of the libraries and all others leave \<^verbatim>\<open>main\<close>.
\<close>

fun after_try :: "exn + unit \<Rightarrow> int \<Rightarrow> int \<Rightarrow> main_result" where
  "after_try (Inr _) p q = Exited [] p q"
| "after_try (Inl (ProtocolException msg)) p q = Exited [''Protocol exception'', msg] p q"
| "after_try (Inl e) p q = Aborted e"

text \<open>
  The runs of \<^verbatim>\<open>main\<close>. The exchange ends in the waiting loop, where an exception in a thread ends the
  program without a chance for the handler; after the loop the detached thread runs on, until the program has
  printed its numbers.
\<close>

inductive main_run ::
    "setting \<Rightarrow> params \<Rightarrow> sell_draw \<Rightarrow> seller \<Rightarrow> buyer \<Rightarrow> int \<Rightarrow> int \<Rightarrow> 32 word \<Rightarrow> bool \<Rightarrow> world \<Rightarrow> main_result \<Rightarrow> bool"
  for E :: setting and P :: params and dw :: sell_draw and ms :: seller and mb :: buyer
    and p :: int and q :: int and price :: "32 word" and cheat :: bool where
  seller_raises: "main_world E ms mb p q price cheat = Inl e \<Longrightarrow> main_run E P dw ms mb p q price cheat w (Aborted e)"
| init_raises: "\<lbrakk>main_world E ms mb p q price cheat = Inr w0; sell_init w0 = (Inl e, w)\<rbrakk>
     \<Longrightarrow> main_run E P dw ms mb p q price cheat w (after_try (Inl e) (bu_p (w_buyer w)) (bu_q (w_buyer w)))"
| exec_raises: "\<lbrakk>main_world E ms mb p q price cheat = Inr w0; sell_init w0 = (Inr (), w1);
      sell_exec E P dw w1 = Some (Inl e, w)\<rbrakk>
     \<Longrightarrow> main_run E P dw ms mb p q price cheat w (after_try (Inl e) (bu_p (w_buyer w)) (bu_q (w_buyer w)))"
| wait_returns: "\<lbrakk>main_world E ms mb p q price cheat = Inr w0; sell_init w0 = (Inr (), w1);
      sell_exec E P dw w1 = Some (Inr (), w2); thread_reaches (lib E) (server E) P (threads_start P w2) s;
      reads_results (lib E) (server E) P s t p' q'; th_world t = w\<rbrakk>
     \<Longrightarrow> main_run E P dw ms mb p q price cheat w (after_try (Inr ()) p' q')"
| wait_crashes: "\<lbrakk>main_world E ms mb p q price cheat = Inr w0; sell_init w0 = (Inr (), w1);
      sell_exec E P dw w1 = Some (Inr (), w2); thread_reaches (lib E) (server E) P (threads_start P w2) s;
      detached_reaches (lib E) (server E) P s t; th_outcome t = Terminated e; th_world t = w\<rbrakk>
     \<Longrightarrow> main_run E P dw ms mb p q price cheat w (Aborted e)"

section \<open>The parties that the program builds\<close>

lemma main_world_parties:
  assumes "main_world E ms mb p q price cheat = Inr w"
  shows "se_p (w_seller w) = p" "se_q (w_seller w) = q" "se_n (w_seller w) = p * q" "se_price (w_seller w) = price"
    "se_cheat (w_seller w) = cheat" "se_square_root (w_seller w) = SquareRoot (lib E) p q"
    "se_single_sellers (w_seller w) = []" "w_buyer w = new_buyer mb (p * q) price"
  using assms by (auto simp: main_world_def new_seller_def sum_then_Inr Let_def)

text \<open>The two parties of one program always agree on what they negotiate.\<close>

lemma main_init: "main_world E ms mb p q price cheat = Inr w \<Longrightarrow> sell_init w = (Inr (), w)"
  by (simp add: sell_init_def main_world_parties seller_get_n_def) (simp add: new_buyer_def)

text \<open>Before the wait the buyer has nothing yet, and the modulus is the product of what was read.\<close>

lemma main_exec_results:
  assumes "main_world E ms mb p q price cheat = Inr w0" "sell_exec E P dw w0 = Some (r, w)"
  shows "bu_p (w_buyer w) = 0" "bu_q (w_buyer w) = 0" "bu_n (w_buyer w) = p * q"
proof -
  have "bu_p (w_buyer w0) = 0" "bu_q (w_buyer w0) = 0" "bu_n (w_buyer w0) = p * q"
    using main_world_parties(8) [OF assms(1)] by (simp_all add: new_buyer_def)
  then show "bu_p (w_buyer w) = 0" "bu_q (w_buyer w) = 0" "bu_n (w_buyer w) = p * q"
    using results.exec_view(2) [OF assms(2)] terms.exec_view(2) [OF assms(2)]
    by (simp_all add: buyer_results_def buyer_negotiated_def)
qed

section \<open>Servers that differ only in their answers to the threads\<close>

text \<open>The exchange never asks for signatures or redemptions; only the buyer's threads do, after it.\<close>

definition with_threads :: "rpc \<Rightarrow> setting \<Rightarrow> setting" where
  "with_threads env E = E\<lparr>server := (server E)\<lparr>rpc_pairs := rpc_pairs env,
     rpc_bool := (\<lambda>log c. if is_redeem c then rpc_bool env log c else rpc_bool (server E) log c)\<rparr>\<rparr>"

lemma with_threads_parts [simp]:
  "lib (with_threads env E) = lib E" "curve (with_threads env E) = curve E"
  "lib_verifier (with_threads env E) = lib_verifier E"
  "mem_seller (with_threads env E) = mem_seller E" "mem_buyer (with_threads env E) = mem_buyer E"
  "mem_flag (with_threads env E) = mem_flag E" "mem_past (with_threads env E) = mem_past E"
  "rpc_string (server (with_threads env E)) = rpc_string (server E)"
  "rpc_scripts (server (with_threads env E)) = rpc_scripts (server E)"
  "rpc_pairs (server (with_threads env E)) = rpc_pairs env"
  "rpc_bool (server (with_threads env E)) log c = (if is_redeem c then rpc_bool env log c else rpc_bool (server E) log c)"
  by (simp_all add: with_threads_def)

lemma with_threads_call [simp]:
  "\<not> is_redeem c \<Longrightarrow> rpc_call (rpc_bool (server (with_threads env E))) c = rpc_call (rpc_bool (server E)) c"
  by (rule ext) (simp add: rpc_call_def)

lemma sell_exec_with_threads: "sell_exec (with_threads env E) P dw w = sell_exec E P dw w"
proof -
  have "sell_round (with_threads env E) P dw = sell_round E P dw"
    by (rule ext) (simp add: sell_round_def commit_phase_def check_phase_def)
  moreover have "setup_parties (with_threads env E) P dw = setup_parties E P dw" by (simp add: setup_parties_def)
  moreover have "first_phase (with_threads env E) P dw as bs = first_phase E P dw as bs" for as bs
    by (simp add: first_phase_def createT1AndT2_def verifyT2Signature_def)
  moreover have "on_chain (with_threads env E) P = on_chain E P"
    by (simp add: on_chain_def make_payment_def accept_T1_def accept_payment_def cong: if_cong)
  ultimately show ?thesis by (auto simp: sell_exec_def off_chain_def split: sum.splits option.splits)
qed

lemma honest_exchange_with_threads:
  "honest_exchange (with_threads env E) P dw p q hash w = honest_exchange E P dw p q hash w"
  by (simp add: honest_exchange_def honest_draws_def good_server_def)

lemma main_world_with_threads:
  "main_world (with_threads env E) ms mb p q price cheat = main_world E ms mb p q price cheat"
  by (simp add: main_world_def new_seller_def)

lemmas with_threads_same = sell_exec_with_threads honest_exchange_with_threads main_world_with_threads

section \<open>Properties\<close>

text \<open>
  C7: what the program prints is right whatever happens inside. Every number that is not zero divides the
  modulus of the primes read, and two of them have it as their product; after an exception that was
  caught both are zero; and when the program ends without one and does not print the factors, then the
  server accepted a transaction that took the payment back.
\<close>

theorem main_output:
  assumes "main_run E P dw ms mb p q price cheat w (Exited err p' q')"
  shows "(p' = 0 \<or> p' dvd p * q) \<and> (q' = 0 \<or> q' dvd p * q) \<and> (p' \<noteq> 0 \<and> q' \<noteq> 0 \<longrightarrow> p' * q' = p * q) \<and>
    (err \<noteq> [] \<longrightarrow> p' = 0 \<and> q' = 0) \<and>
    (err = [] \<and> p' * q' \<noteq> p * q \<longrightarrow> redeemed (server E) (w_calls w))"
  using assms
proof (cases rule: main_run.cases)
  case (init_raises w0 e)
  then show ?thesis using main_init by fastforce
next
  case (exec_raises w0 w1 e)
  have w1: "w1 = w0" using exec_raises(3) main_init [OF exec_raises(2)] by simp
  show ?thesis
    using main_exec_results [OF exec_raises(2) exec_raises(4) [unfolded w1]] exec_raises(1) by (cases e) auto
next
  case (wait_returns w0 w1 w2 s t pr qr)
  have w1: "w1 = w0" using wait_returns(3) main_init [OF wait_returns(2)] by simp
  note r = main_exec_results [OF wait_returns(2) wait_returns(4) [unfolded w1]]
  show ?thesis using reads_results_ok [OF wait_returns(5,6) r] wait_returns(1,7) by simp
qed

text \<open>A run of the program for the witnesses, with parties built on any memory.\<close>

definition ref_main :: "rpc \<Rightarrow> single_seller \<Rightarrow> single_buyer \<Rightarrow> setting" where
  "ref_main f a b = with_threads f (ref_setting a b)"

lemma ref_main_world:
  "\<exists>w. main_world (ref_main f a b) ms mb 7 11 price cheat = Inr w \<and>
     honest_exchange (ref_main f a b) ref_one ref_draw 7 11 ref_hash w"
proof -
  obtain w where w: "main_world (ref_setting a b) ms mb 7 11 price cheat = Inr w"
    by (simp add: main_world_def new_seller_def ref_setting_def ref_server_def Let_def)
  have l: "lib (ref_setting a b) = ref_cryptopp" by (simp add: ref_setting_def)
  have "honest_exchange (ref_setting a b) ref_one ref_draw 7 11 ref_hash w"
    using ref_honest_exchange [of a b] main_world_parties [OF w]
    by (simp add: honest_exchange_def l) (simp add: new_buyer_def)
  with w show ?thesis by (simp add: ref_main_def with_threads_same)
qed

lemma main_run_sold:
  assumes w0: "main_world E ms mb p q price cheat = Inr w0" and exec: "sell_exec E P dw w0 = Some (Inr (), w1)"
    and sig: "get_signature (lib E) (server E) P w1 = (Inr (), w2)"
  shows "main_run E P dw ms mb p q price cheat w2 (Exited [] (bu_p (w_buyer w2)) (bu_q (w_buyer w2)))"
proof -
  obtain s where s: "thread_reaches (lib E) (server E) P (threads_start P w1) s" "th_outcome s = SignatureFinished" "th_world s = w2"
    using signature_alone [OF sig] by (blast intro: converse_rtranclp_into_rtranclp)
  have "reads_results (lib E) (server E) P s s (bu_p (w_buyer w2)) (bu_q (w_buyer w2))"
    using s(2,3) by (auto simp: reads_results_def wait_over_def)
  from main_run.wait_returns [OF w0 main_init [OF w0] exec s(1) this s(3)] show ?thesis by simp
qed

text \<open>
  The program sells: between the parties it builds, with a server that agrees and that finds the
  seller's signatures, there is a run that prints the two primes, and the waiting loop leads to it as
  soon as the thread of the signature has run.
\<close>

theorem main_sells:
  assumes w0: "main_world E ms mb p q price cheat = Inr w0"
    and ok: "honest_exchange E P dw p q hash w0"
    and picks: "\<And>k. dw_picks dw k \<in> {0..int (par_T P) - 1}" "par_R P \<le> card (dw_picks dw ` {..<N})"
    and p: "prime_integer p" "prime_integer q" "p \<noteq> q" and L: "0 < par_L P"
    and server: "\<And>w. sell_exec E P dw w0 = Some (Inr (), w) \<Longrightarrow> publishes (lib E) P (server E) (w_seller w)"
  shows "\<exists>w p' q'. main_run E P dw ms mb p q price cheat w (Exited [] p' q') \<and> {p', q'} = {p, q}"
proof -
  obtain w1 where exec: "sell_exec E P dw w0 = Some (Inr (), w1)" and ready: "exchange_ready (lib E) P (p * q) w1"
    using sell_exec_run [OF ok picks] by blast
  have laws: "modular_laws (lib E)" "cipher_laws (lib E)" "encoding_laws (lib E)" "hash_laws (lib E)" "0 < par_R P"
    using ok by (simp_all add: honest_exchange_def honest_draws_def curve_setup_def)
  obtain w2 where sig: "get_signature (lib E) (server E) P w1 = (Inr (), w2)" "{bu_p (w_buyer w2), bu_q (w_buyer w2)} = {p, q}"
    using get_signature_sold [OF laws(1-4) p ready laws(5) L server [OF exec]] by blast
  show ?thesis using main_run_sold [OF w0 exec sig(1)] sig(2) by blast
qed

lemma ref_main_sells:
  "\<exists>f w w0. rpc_bool f = g \<and> main_world (ref_main f a b) ms mb 7 11 price cheat = Inr w0 \<and>
     honest_exchange (ref_main f a b) ref_one ref_draw 7 11 ref_hash w0 \<and>
     sell_exec (ref_main f a b) ref_one ref_draw w0 = Some (Inr (), w) \<and> exchange_ready ref_cryptopp ref_one 77 w \<and>
     publishes ref_cryptopp ref_one (server (ref_main f a b)) (w_seller w)"
proof -
  obtain w0 where w0: "main_world (ref_setting a b) ms mb 7 11 price cheat = Inr w0"
    "honest_exchange (ref_setting a b) ref_one ref_draw 7 11 ref_hash w0"
    using ref_main_world [of ref_server a b ms mb price cheat]
    by (auto simp: ref_main_def with_threads_same)
  have l: "lib (ref_setting a b) = ref_cryptopp" by (simp add: ref_setting_def)
  obtain w where w: "sell_exec (ref_setting a b) ref_one ref_draw w0 = Some (Inr (), w)"
    "exchange_ready (lib (ref_setting a b)) ref_one (7 * 11) w"
    using sell_exec_run [OF w0(2) ref_picks] by blast
  let ?f = "(publisher ref_cryptopp ref_one (w_seller w))\<lparr>rpc_bool := g\<rparr>"
  have "publishes ref_cryptopp ref_one (publisher ref_cryptopp ref_one (w_seller w)) (w_seller w)"
    using publisher_publishes w(2) ref_laws(1) by (simp add: l)
  then have "publishes ref_cryptopp ref_one (server (ref_main ?f a b)) (w_seller w)"
    by (simp add: publishes_def ref_main_def) (simp add: ref_setting_def ref_server_def)
  then show ?thesis
    using w0 w by (intro exI [of _ ?f] exI [of _ w] exI [of _ w0])
      (simp add: ref_main_def with_threads_same l)
qed

theorem main_sells_witness:
  "\<forall>a b ms mb price cheat. \<exists>f w p' q'.
     main_run (ref_main f a b) ref_one ref_draw ms mb 7 11 price cheat w (Exited [] p' q') \<and> {p', q'} = {7, 11}"
proof (intro allI)
  fix a b ms mb price cheat
  obtain f w w0 where r: "main_world (ref_main f a b) ms mb 7 11 price cheat = Inr w0"
    "honest_exchange (ref_main f a b) ref_one ref_draw 7 11 ref_hash w0"
    "sell_exec (ref_main f a b) ref_one ref_draw w0 = Some (Inr (), w)"
    "publishes ref_cryptopp ref_one (server (ref_main f a b)) (w_seller w)"
    using ref_main_sells [of "\<lambda>log c. Inr True" a b ms mb price cheat] by blast
  have l: "lib (ref_main f a b) = ref_cryptopp" by (simp add: ref_main_def ref_setting_def)
  have p: "prime_integer 7" "prime_integer 11" by (simp_all add: prime_integer_code upto_rec_numeral)
  have "publishes (lib (ref_main f a b)) ref_one (server (ref_main f a b)) (w_seller v)"
    if "sell_exec (ref_main f a b) ref_one ref_draw w0 = Some (Inr (), v)" for v
    using r(3,4) that by (simp add: l)
  from main_sells [OF r(1,2) ref_picks p _ _ this]
  obtain w' p' q' where "main_run (ref_main f a b) ref_one ref_draw ms mb 7 11 price cheat w' (Exited [] p' q')"
    "{p', q'} = {7, 11}" by (auto simp: ref_one_def)
  then show "\<exists>f w p' q'. main_run (ref_main f a b) ref_one ref_draw ms mb 7 11 price cheat w (Exited [] p' q') \<and> {p', q'} = {7, 11}"
    by blast
qed


theorem main_output_witness:
  "\<forall>a b ms mb price cheat. \<exists>f w p' q'. main_run (ref_main f a b) ref_one ref_draw ms mb 7 11 price cheat w (Exited [] p' q')
     \<and> (p' = 0 \<or> p' dvd 77) \<and> (q' = 0 \<or> q' dvd 77)"
proof (intro allI)
  fix a b ms mb price cheat
  obtain f w w0 where r: "main_world (ref_main f a b) ms mb 7 11 price cheat = Inr w0"
    "sell_exec (ref_main f a b) ref_one ref_draw w0 = Some (Inr (), w)" "exchange_ready ref_cryptopp ref_one (7 * 11) w"
    "publishes ref_cryptopp ref_one (server (ref_main f a b)) (w_seller w)"
    using ref_main_sells [of "\<lambda>log c. Inr True" a b ms mb price cheat] by auto
  have l: "lib (ref_main f a b) = ref_cryptopp" by (simp add: ref_main_def ref_setting_def)
  have p: "prime_integer 7" "prime_integer 11" by (simp_all add: prime_integer_code upto_rec_numeral)
  have one: "0 < par_R ref_one" "0 < par_L ref_one" "(7 :: int) \<noteq> 11" by (simp_all add: ref_one_def)
  obtain w2 where "get_signature ref_cryptopp (server (ref_main f a b)) ref_one w = (Inr (), w2)"
    using get_signature_sold [OF ref_laws(2) _ _ _ p one(3) r(3) one(1,2) r(4)] ref_laws by blast
  from main_run_sold [OF r(1,2) this [folded l]]
  have run: "main_run (ref_main f a b) ref_one ref_draw ms mb 7 11 price cheat w2 (Exited [] (bu_p (w_buyer w2)) (bu_q (w_buyer w2)))" .
  from main_output [OF run] run
  show "\<exists>f w p' q'. main_run (ref_main f a b) ref_one ref_draw ms mb 7 11 price cheat w (Exited [] p' q')
     \<and> (p' = 0 \<or> p' dvd 77) \<and> (q' = 0 \<or> q' dvd 77)"
    by (intro exI conjI) auto
qed


end
