(* ===== verification/Detached_Thread.thy ===== *)
theory Detached_Thread
  imports Main_Program
begin

text \<open>
  What the thread that is detached after the wait of main/sell_information.cpp can still do to the program of
  main/main.cpp: its writes meet the reads of the last output, and its exception ends a program whose buyer has
  the factors.
\<close>

section \<open>Both threads between honest parties\<close>

text \<open>Before the threads start, the buyer can be sold the factors and can take its money back.\<close>

lemma both_ready:
  assumes w0: "main_world E ms mb p q price cheat = Inr w0" and ok: "honest_exchange E P dw p q hash w0"
    and picks: "\<And>k. dw_picks dw k \<in> {0..int (par_T P) - 1}" "par_R P \<le> card (dw_picks dw ` {..<N})"
    and p: "prime_integer p" "prime_integer q" "p \<noteq> q" and L: "0 < par_L P"
    and server: "\<And>w. sell_exec E P dw w0 = Some (Inr (), w) \<Longrightarrow> publishes (lib E) P (server E) (w_seller w)"
  shows "\<exists>w1. sell_exec E P dw w0 = Some (Inr (), w1) \<and> refund_ready E P dw (w_buyer w1) \<and> bu_p (w_buyer w1) = 0 \<and>
    (\<forall>w. w_buyer w = w_buyer w1 \<and> w_seller w = w_seller w1 \<longrightarrow>
      (\<exists>w2. get_signature (lib E) (server E) P w = (Inr (), w2) \<and> {bu_p (w_buyer w2), bu_q (w_buyer w2)} = {p, q}))"
proof -
  obtain w1 where exec: "sell_exec E P dw w0 = Some (Inr (), w1)" and ready: "exchange_ready (lib E) P (p * q) w1"
    and refund: "refund_ready E P dw (w_buyer w1)"
    using sell_exec_run [OF ok picks] by blast
  have laws: "modular_laws (lib E)" "cipher_laws (lib E)" "encoding_laws (lib E)" "hash_laws (lib E)" "0 < par_R P"
    using ok by (simp_all add: honest_exchange_def honest_draws_def curve_setup_def)
  have "\<exists>w2. get_signature (lib E) (server E) P w = (Inr (), w2) \<and> {bu_p (w_buyer w2), bu_q (w_buyer w2)} = {p, q}"
    if "w_buyer w = w_buyer w1" "w_seller w = w_seller w1" for w
    using get_signature_sold [OF laws(1-4) p _ laws(5) L] ready server [OF exec] that exchange_ready_cong [of w w1]
    by simp
  then show ?thesis using exec refund main_exec_results(1) [OF w0 exec] by blast
qed

lemma ref_size_ok: "8 * min_encoded_size (lib (ref_main f a b)) (draw_ds (dw_keys ref_draw i)) < 2 ^ 32"
  by (simp add: ref_main_def ref_setting_def ref_draw_def ref_kd_def ref_simps ref_size.simps)

lemma ref_main_redeem: "is_redeem c \<Longrightarrow> rpc_bool (server (ref_main f a b)) log c = rpc_bool f log c"
  by (simp add: ref_main_def)

section \<open>Properties\<close>


text \<open>
  C9: a sale can be lost. Between honest parties, when the signature thread has given the buyer the two primes but the
  server answers the redemption of the detached thread with an exception, there is a run that is aborted, with the
  primes in memory and nothing caught.
\<close>

theorem sale_can_be_aborted:
  assumes w0: "main_world E ms mb p q price cheat = Inr w0" and ok: "honest_exchange E P dw p q hash w0"
    and picks: "\<And>k. dw_picks dw k \<in> {0..int (par_T P) - 1}" "par_R P \<le> card (dw_picks dw ` {..<N})"
    and p: "prime_integer p" "prime_integer q" "p \<noteq> q" and L: "0 < par_L P"
    and server: "\<And>w. sell_exec E P dw w0 = Some (Inr (), w) \<Longrightarrow> publishes (lib E) P (server E) (w_seller w)"
    and size: "\<And>i. i < par_T P \<Longrightarrow> 8 * min_encoded_size (lib E) (draw_ds (dw_keys dw i)) < 2 ^ 32"
    and raises: "\<And>log c. is_redeem c \<Longrightarrow> rpc_bool (server E) log c = Inl e"
  shows "\<exists>w. main_run E P dw ms mb p q price cheat w (Aborted e) \<and> {bu_p (w_buyer w), bu_q (w_buyer w)} = {p, q}"
proof -
  obtain w1 where w1: "sell_exec E P dw w0 = Some (Inr (), w1)" "refund_ready E P dw (w_buyer w1)"
    and sold: "\<exists>w2. get_signature (lib E) (server E) P w1 = (Inr (), w2) \<and> {bu_p (w_buyer w2), bu_q (w_buyer w2)} = {p, q}"
    using both_ready [OF w0 ok picks p L server] by blast
  have laws: "encoding_laws (lib E)" "0 < par_R P" using ok by (simp_all add: honest_exchange_def)
  obtain w2 where w2: "get_signature (lib E) (server E) P w1 = (Inr (), w2)" "{bu_p (w_buyer w2), bu_q (w_buyer w2)} = {p, q}"
    using sold by blast
  obtain s where s: "thread_reaches (lib E) (server E) P (threads_start P w1) s" "th_outcome s = SignatureFinished"
    "th_world s = w2" "th_lock s = Trying [0..<par_R P]"
    using signature_alone [OF w2(1)] by (blast intro: converse_rtranclp_into_rtranclp)
  have "refund_ready E P dw (w_buyer w2)" using w1(2) get_signature_single_buyers [OF w2(1)] by (simp add: refund_ready_def)
  from redeem_loop_raises [OF this laws size raises] obtain c where
    "redeem_loop (lib E) (server E) P False [0..<par_R P] w2 = Some (Inl e, w2\<lparr>w_calls := w_calls w2 @ [c]\<rparr>)" by blast
  then obtain t where "detached_reaches (lib E) (server E) P s t" "th_outcome t = Terminated e"
    "th_world t = w2\<lparr>w_calls := w_calls w2 @ [c]\<rparr>"
    using lock_detached_raises [of "lib E" "server E" P "[0..<par_R P]" s e] s by (auto simp: wait_over_def)
  from main_run.wait_crashes [OF w0 main_init [OF w0] w1(1) s(1) this] w2(2) show ?thesis
    by (intro exI [of _ "w2\<lparr>w_calls := w_calls w2 @ [c]\<rparr>"]) simp
qed

text \<open>The assumptions of both hold for the program that the reference library runs.\<close>

lemma ref_both_ready:
  "\<exists>f w0. rpc_bool f = g \<and> main_world (ref_main f a b) ms mb 7 11 price cheat = Inr w0 \<and>
     honest_exchange (ref_main f a b) ref_one ref_draw 7 11 ref_hash w0 \<and>
     (\<forall>v. sell_exec (ref_main f a b) ref_one ref_draw w0 = Some (Inr (), v) \<longrightarrow>
        publishes (lib (ref_main f a b)) ref_one (server (ref_main f a b)) (w_seller v))"
proof -
  obtain f w w0 where r: "rpc_bool f = g" "main_world (ref_main f a b) ms mb 7 11 price cheat = Inr w0"
    "honest_exchange (ref_main f a b) ref_one ref_draw 7 11 ref_hash w0"
    "sell_exec (ref_main f a b) ref_one ref_draw w0 = Some (Inr (), w)"
    "publishes ref_cryptopp ref_one (server (ref_main f a b)) (w_seller w)"
    using ref_main_sells [of g a b ms mb price cheat] by blast
  have "lib (ref_main f a b) = ref_cryptopp" by (simp add: ref_main_def ref_setting_def)
  then show ?thesis using r by auto
qed

lemma ref_primes: "prime_integer 7" "prime_integer 11" "(7 :: int) \<noteq> 11" "0 < par_L ref_one"
  by (simp_all add: prime_integer_code upto_rec_numeral ref_one_def)


theorem sale_can_be_aborted_witness:
  "\<forall>a b ms mb price cheat. \<exists>f w. main_run (ref_main f a b) ref_one ref_draw ms mb 7 11 price cheat w (Aborted TransportException)
     \<and> {bu_p (w_buyer w), bu_q (w_buyer w)} = {7, 11}"
proof (intro allI)
  fix a b ms mb price cheat
  obtain f w0 where r: "rpc_bool f = (\<lambda>log c. Inl TransportException)" "main_world (ref_main f a b) ms mb 7 11 price cheat = Inr w0"
    "honest_exchange (ref_main f a b) ref_one ref_draw 7 11 ref_hash w0"
    "\<And>v. sell_exec (ref_main f a b) ref_one ref_draw w0 = Some (Inr (), v) \<Longrightarrow>
        publishes (lib (ref_main f a b)) ref_one (server (ref_main f a b)) (w_seller v)"
    using ref_both_ready [of "\<lambda>log c. Inl TransportException" a b ms mb price cheat] by blast
  have raises: "rpc_bool (server (ref_main f a b)) log c = Inl TransportException" if "is_redeem c" for log c
    using that r(1) by (simp add: ref_main_redeem)
  from sale_can_be_aborted [OF r(2,3) ref_picks ref_primes r(4) ref_size_ok raises]
  show "\<exists>f w. main_run (ref_main f a b) ref_one ref_draw ms mb 7 11 price cheat w (Aborted TransportException)
     \<and> {bu_p (w_buyer w), bu_q (w_buyer w)} = {7, 11}"
    by blast
qed

end
