(* ===== verification/Bitcoin_Server.thy ===== *)
theory Bitcoin_Server
  imports Sell_Parties
begin

text \<open>
  \<open>BitcoinUtilsHandler\<close> of bitcoin/cpp/bitcoin_utils_server.cpp, the server in C++ beside the one in
  Java: a skeleton whose handlers answer with fixed values, but for the verification of a signature
  with the library. A reply passed by reference that a handler does not write stays as it was, empty.
  What the handlers print is left out.
\<close>

section \<open>Requests and replies\<close>

datatype server_request =
    Ping
  | NewAddress
  | MakeSend "byte list" "byte list" "32 word"
  | MakeSendToAddress string "byte list" "byte list" string
  | OutputScript string "byte list" "byte list"
  | SignatureHash string "byte list" "byte list" string
  | CheckSignature string "byte list" "byte list" "byte list" "byte list" string
  | CppCheckSignature "byte list" "byte list" "byte list" "byte list" "byte list"
  | SignedTransaction string "byte list" "byte list" "byte list" "byte list" string
  | Broadcast string
  | CheckTransaction string "byte list" "byte list" "32 word"
  | AwaitTransaction string "32 word"

datatype server_reply = Done | Text string | Verdict bool

text \<open>The test returns an exit status: 1 when the library refuses the signature.\<close>

definition server_cryptopp_test ::
    "cryptopp \<Rightarrow> (ec_point \<Rightarrow> byte list \<Rightarrow> byte list \<Rightarrow> bool) \<Rightarrow> ec_point \<Rightarrow> int \<Rightarrow> int \<Rightarrow> byte list \<Rightarrow> int" where
  "server_cryptopp_test cp lib_verify Q r s message =
     (let signature = encode_bytes cp r 32 @ encode_bytes cp s 32;
          result = lib_verify Q message signature
      in if \<not> result then 1 else 0)"

text \<open>The handler returns that status as its verdict, by the conversion of a number to a truth value.\<close>

definition cppVerifySignature ::
    "cryptopp \<Rightarrow> (ec_point \<Rightarrow> byte list \<Rightarrow> byte list \<Rightarrow> bool) \<Rightarrow> byte list \<Rightarrow> byte list \<Rightarrow> byte list \<Rightarrow>
     byte list \<Rightarrow> byte list \<Rightarrow> bool" where
  "cppVerifySignature cp lib_verify data bx by' br bs =
     (let x = decode_bytes cp bx; y = decode_bytes cp by';
          r = decode_bytes cp br; s = decode_bytes cp bs;
          Q = Point x y;
          res = (server_cryptopp_test cp lib_verify Q r s data \<noteq> 0)
      in res)"

fun handle ::
    "cryptopp \<Rightarrow> (ec_point \<Rightarrow> byte list \<Rightarrow> byte list \<Rightarrow> bool) \<Rightarrow> server_request \<Rightarrow> server_reply" where
  "handle cp lib_verify Ping = Done"
| "handle cp lib_verify NewAddress = Text []"
| "handle cp lib_verify (MakeSend x y value) = Text []"
| "handle cp lib_verify (MakeSendToAddress tx x y dst) = Text []"
| "handle cp lib_verify (OutputScript tx x y) = Text []"
| "handle cp lib_verify (SignatureHash tx x y script) = Text []"
| "handle cp lib_verify (CheckSignature tx x y r s script) = Verdict True"
| "handle cp lib_verify (CppCheckSignature data x y r s) = Verdict (cppVerifySignature cp lib_verify data x y r s)"
| "handle cp lib_verify (SignedTransaction tx x y r s script) = Text []"
| "handle cp lib_verify (Broadcast tx) = Verdict False"
| "handle cp lib_verify (CheckTransaction tx x y value) = Verdict False"
| "handle cp lib_verify (AwaitTransaction tx depth) = Verdict False"

section \<open>Properties\<close>

text \<open>
  C40: the verdict on a signature is the wrong way round: the skeleton says yes exactly to the signatures
  that the library refuses, and no to those that it accepts.
\<close>

theorem server_verdict_inverted:
  assumes "encoding_laws cp" "0 \<le> x" "0 \<le> y" "0 \<le> r" "0 \<le> s"
  shows "handle cp lib_verify (CppCheckSignature data (to_bytes cp x) (to_bytes cp y) (to_bytes cp r) (to_bytes cp s))
    = Verdict (\<not> lib_verify (Point x y) data (encode_bytes cp r 32 @ encode_bytes cp s 32))"
  using assms by (simp add: cppVerifySignature_def server_cryptopp_test_def decode_to_bytes Let_def)

theorem server_verdict_inverted_witness:
  "handle ref_cryptopp (\<lambda>Q m sig. True) (CppCheckSignature [] (to_bytes ref_cryptopp 1) (to_bytes ref_cryptopp 2)
     (to_bytes ref_cryptopp 3) (to_bytes ref_cryptopp 4)) = Verdict False"
  using server_verdict_inverted [of ref_cryptopp 1 2 3 4 "\<lambda>Q m sig. True" "[]"] ref_laws(1) by simp

end
