(* ===== verification/Spec2Isabelle.thy ===== *)
theory Spec2Isabelle
  imports Square_Root Regular_Commitment Sha_Commitment Cut_And_Choose Timed_Commitment
    Shared_Signature Signature_Key Settlement Ecdsa Exchange Invariants Round_Soundness Threads
    Detection Detached_Thread Bitcoin_Server
begin

text \<open>
  A protocol that sells the factors of a number for bitcoins, as the C++ program under src/ runs it.

  \<^bold>\<open>The program.\<close> A seller knows the primes \<open>p\<close> and \<open>q\<close>, a buyer knows \<open>n = p * q\<close>. Both run in one process
  (main/main.cpp). \<open>SellInformationProtocol::exec\<close> (main/sell_information.cpp) has these parts:
  \<^enum> \<open>T\<close> pairs of parties agree on keys of which each knows a share (shared_signature/shared_sig.cpp, over
    the homomorphic encryption of paillier.cpp); the buyer draws \<open>R\<close> of them and has the server build the
    payment T1 to these keys and the transaction T2 that spends it.
  \<^enum> A cut-and-choose (cut_and_choose/cut_and_choose.h) over the protocol of main/signature_key.cpp: each pair
    signs the hash of T2, of which only the seller learns the signature; the seller puts its key share in a
    timed commitment (timed_commitment/), and commits by hashes (sha_commitment/) to \<open>L\<close> AES keys derived from
    the signature. All but the \<open>R\<close> drawn pairs are opened.
  \<^enum> \<open>R\<close> rounds of a second cut-and-choose: the buyer squares \<open>L\<close> random numbers, the seller finds the roots
    (common/square_root.cpp), encrypts the two smallest under the keys and commits to them; the buyer names
    half of the columns, for which it sees the key and its own root, and opens both ciphertexts of the rest.
  \<^enum> The buyer broadcasts T1, the seller waits for it and broadcasts T2 with its signatures.
  \<^enum> Two threads of the buyer: one reads the signatures from the blockchain, derives the keys, decrypts two
    roots of one square and computes the factors; the other opens a timed commitment and takes the payment
    back. A loop waits for either.

  \<^bold>\<open>How it is modelled.\<close> A class is a record with the fields of the class; a member function that changes it
  and may raise is a function from the state to a result and the new state (type \<open>comp\<close> of Prelude: \<open>Inl\<close> an
  exception of type \<open>exn\<close>, \<open>Inr\<close> a value, and the state in both cases, because a handler sees what was done
  before a \<^verbatim>\<open>throw\<close>). Two parties of a protocol are a pair of states (Protocol). \<^verbatim>\<open>unsigned\<close> numbers are \<open>32 word\<close>
  where they can wrap and \<open>nat\<close> where the parameters bound them; \<open>Integer\<close> is \<open>int\<close>; \<^verbatim>\<open>byte\<close> is \<open>8 word\<close>. The
  two-dimensional arrays are functions of two indices; the vectors are lists, and an index past the end is
  the exception \<open>Undefined\<close>. Random numbers are arguments (\<open>sell_draw\<close>, \<open>key_draw\<close>, \<open>sig_draw\<close>, \<open>sigkey_draw\<close>).
  The parameters \<open>T\<close>, \<open>K\<close>, \<open>L\<close>, \<open>R\<close> of common/common.h are the record \<open>params\<close>; what is proved holds for all
  values, and the definition \<open>common_params\<close> gives those of the code.

  What is not under src/ is a parameter: the cryptographic library (record \<open>cryptopp\<close>, Cryptopp), the elliptic
  curve (record \<open>ec\<close>, Elliptic_Curve), the server for Bitcoin operations (record \<open>rpc\<close>, Sell_Parties; its
  answers may depend on all earlier calls and may be exceptions), the verifier of the library, uninitialised
  memory and what lies past the end of a vector (record \<open>setting\<close>, Sell_Information). What the library is
  relied on for are named predicates: \<open>encoding_laws\<close>, \<open>modular_laws\<close>, \<open>root_laws\<close>, \<open>hash_laws\<close>,
  \<open>cipher_laws\<close>, \<open>size_laws\<close>, \<open>ec_laws\<close>. Reference_Library and the end of Elliptic_Curve define small
  executable libraries that satisfy all of them; the witnesses use these.

  \<^bold>\<open>The theories\<close>, each with the code it models:
  \<^item> Prelude: exceptions, computations, loops, parallel vectors. Number_Facts: primes, roots and residues over \<open>int\<close>.
  \<^item> Cryptopp, Reference_Library: the interface of the library, and an instance.
  \<^item> Common: common/common.h, common.cpp, aes.h, aes.cpp. Square_Root: common/square_root.h, square_root.cpp; the four
    roots are found, sorted, in the two halves, and two of the lower half split \<open>n\<close>.
  \<^item> Bit_Utils, Regular_Commitment, Timed_Commitment: timed_commitment/; round trips, the opening by squarings ends and
    agrees with the opening by the factor.
  \<^item> Protocol: the locales \<open>honest_protocol\<close>, \<open>sound_opening\<close> and \<open>recomputed_commitment\<close>, which are the contracts of protocol.h
    that cut-and-choose relies on. They are interpreted on the commitments, the signature and the signature keys.
  \<^item> Sha_Commitment, Cut_And_Choose: acceptance means that every unchosen execution was opened and verified; an honest
    prover is accepted; the refusals; the read past the end of the index vector.
  \<^item> Paillier, Elliptic_Curve, Shared_Signature, Ecdsa: shared_signature/; decryption, the homomorphic operations, the two-party
    signature, its refinement of the signature of a single party and the program ecdsa.cpp.
  \<^item> Signature_Key: main/signature_key.cpp; what an accepted opening guarantees and what it does not.
  \<^item> Sell_Parties, Sell_Information: main/sell_information.h and the parties, \<open>init\<close> and \<open>exec\<close> of sell_information.cpp, each round split
    in \<open>commit_phase\<close> and \<open>check_phase\<close>. Settlement: what the two threads of the buyer
    run, and the factorisation.
  \<^item> Honest_Round, Exchange: the run between honest parties from the first key to the factors, and to the redemption;
    the order of the payments for all parties.
  \<^item> Invariants: what no run changes, stated once in the locales \<open>round_view\<close> and \<open>exchange_view\<close> for every view of the parties
    that the writes leave alone, and interpreted on the negotiated terms, the results and the shape of the vectors; the rounds
    index nothing past its end.
  \<^item> Round_Soundness: what the buyer knows after the rounds whatever the seller's state was.
  \<^item> Deal: an abstract account of how the exchange ends for the buyer. Threads: the two threads and the waiting loop as a
    step relation in which each call to the server is a step and the steps of the threads interleave; it implements the
    deal, it ends, and a thread that runs alone does what its function does. After the wait the other thread is
    detached and moves on beside the program.
  \<^item> Main_Program: main/main.cpp as a relation over all runs, what it prints and that it ends. Detached_Thread: what the
    thread that runs on can do to the output and to a sale that succeeded.
  \<^item> Detection: how many of the sets that the verifier of the cut-and-choose can name let a cheating prover through.
  \<^item> Bitcoin_Server: the skeleton bitcoin/cpp/bitcoin_utils_server.cpp.

  \<^bold>\<open>Ends and bounds.\<close> No fuel is used. \<open>None\<close> as the result of \<open>pickR\<close> and \<open>sell_exec\<close> is the loop that draws until it has \<open>R\<close> different
  numbers and may draw for ever; it ends when enough different numbers are among the draws. \<open>None\<close> of \<open>solve_time_lock\<close> is the loop
  that sleeps for ever after all redemptions failed; the opening of a timed commitment itself always ends. The
  two threads and the waiting loop make at most \<open>R + 4\<close> steps, given that the server answers each call.

  \<^bold>\<open>Not modelled.\<close> Output, time measurement and the parsing of the input. The connection to the servers (a failure is an
  answer that is an exception). The memory that the two threads share: between two of its calls a
  thread runs as one step (neither reads what the other writes); the two results that it writes for \<^verbatim>\<open>main\<close> to read are written
  and read one after the other, each as a whole. The server in Java, over a library for Bitcoin. Secrecy: what a party learns about the other
  from the messages it sees, and every statement about probabilities; the model has the functional
  behaviour for given random numbers, and Detection counts.
\<close>

end
